theory Spec2Isabelle
  imports Main "HOL-Library.List_Lexorder" "HOL-Library.AList"
begin

section \<open>Python values\<close>

text \<open>
  The embedding follows the Python 3 branch of \<^verbatim>\<open>SecureHTTP.py\<close> (\<^verbatim>\<open>PY2\<close> is false,
  \<^verbatim>\<open>string_types = (str,)\<close>). A \<^verbatim>\<open>str\<close> is a list of code points, a \<^verbatim>\<open>bytes\<close>
  object a list of octets; \<^verbatim>\<open>len\<close> counts the elements of either. Strings are compared
  lexicographically by code point, as Python does.
\<close>

type_synonym ustr = "nat list"
type_synonym bytes = "nat list"

definition ascii :: "string \<Rightarrow> ustr" where
  "ascii s = map of_char s"

text \<open>
  The values that travel through the protocol: what \<^verbatim>\<open>json.dumps\<close> accepts and
  \<^verbatim>\<open>json.loads\<close> produces, floats left out. A \<^verbatim>\<open>dict\<close> is an association list in
  insertion order (the iteration order of a Python dict); its keys are strings.
\<close>

datatype pyval =
    PNone
  | PBool bool
  | PInt int
  | PStr ustr
  | PList "pyval list"
  | PDict "(ustr \<times> pyval) list"

type_synonym pydict = "(ustr \<times> pyval) list"

datatype error =
    TypeError
  | KeyError
  | ValueError
  | AttributeError
  | UnicodeError
  | JSONDecodeError
  | Base64Error
  | RSALibError
  | AESError
  | SignError

text \<open>Truth value of an object, as \<^verbatim>\<open>if x\<close> and \<^verbatim>\<open>x and ...\<close> test it.\<close>

fun truthy :: "pyval \<Rightarrow> bool" where
  "truthy PNone = False"
| "truthy (PBool b) = b"
| "truthy (PInt i) = (i \<noteq> 0)"
| "truthy (PStr s) = (s \<noteq> [])"
| "truthy (PList xs) = (xs \<noteq> [])"
| "truthy (PDict d) = (d \<noteq> [])"

fun is_str :: "pyval \<Rightarrow> bool" where
  "is_str (PStr s) = True"
| "is_str v = False"

fun is_dict :: "pyval \<Rightarrow> bool" where
  "is_dict (PDict d) = True"
| "is_dict v = False"

subsection \<open>Dictionary operations\<close>

text \<open>
  \<^verbatim>\<open>d[k] = v\<close> is \<^const>\<open>AList.update\<close>: an existing key keeps its position, a new key
  goes to the end. \<^verbatim>\<open>d.pop(k)\<close> raises \<^verbatim>\<open>KeyError\<close> on a missing key.
\<close>

definition dict_get :: "pydict \<Rightarrow> ustr \<Rightarrow> pyval \<Rightarrow> pyval" where
  "dict_get d k dflt = (case map_of d k of None \<Rightarrow> dflt | Some v \<Rightarrow> v)"

definition dict_item :: "pydict \<Rightarrow> ustr \<Rightarrow> error + pyval" where
  "dict_item d k = (case map_of d k of None \<Rightarrow> Inl KeyError | Some v \<Rightarrow> Inr v)"

definition dict_pop :: "pydict \<Rightarrow> ustr \<Rightarrow> error + (pyval \<times> pydict)" where
  "dict_pop d k = (case map_of d k of None \<Rightarrow> Inl KeyError
                   | Some v \<Rightarrow> Inr (v, AList.delete k d))"

text \<open>\<^verbatim>\<open>x.pop(name)\<close> on an arbitrary object: only a dict has the method with a key.\<close>

fun obj_pop :: "pyval \<Rightarrow> ustr \<Rightarrow> error + (pyval \<times> pydict)" where
  "obj_pop (PDict d) k = dict_pop d k"
| "obj_pop (PList xs) k = Inl TypeError"
| "obj_pop v k = Inl AttributeError"

section \<open>Text encodings\<close>

subsection \<open>UTF-8\<close>

text \<open>\<^verbatim>\<open>str.encode('utf-8')\<close>: surrogates cannot be encoded.\<close>

definition utf8_char :: "nat \<Rightarrow> bytes option" where
  "utf8_char c =
     (if c < 0x80 then Some [c]
      else if c < 0x800 then Some [0xC0 + c div 64, 0x80 + c mod 64]
      else if 0xD800 \<le> c \<and> c < 0xE000 then None
      else if c < 0x10000 then
        Some [0xE0 + c div 4096, 0x80 + (c div 64) mod 64, 0x80 + c mod 64]
      else if c < 0x110000 then
        Some [0xF0 + c div 262144, 0x80 + (c div 4096) mod 64,
              0x80 + (c div 64) mod 64, 0x80 + c mod 64]
      else None)"

fun utf8_encode :: "ustr \<Rightarrow> bytes option" where
  "utf8_encode [] = Some []"
| "utf8_encode (c # cs) =
     (case utf8_char c of None \<Rightarrow> None
      | Some b \<Rightarrow> (case utf8_encode cs of None \<Rightarrow> None | Some bs \<Rightarrow> Some (b @ bs)))"

text \<open>\<^verbatim>\<open>bytes.decode()\<close>: strict UTF-8, no overlong forms, no surrogates.\<close>

definition cont :: "nat \<Rightarrow> bool" where
  "cont b = (0x80 \<le> b \<and> b < 0xC0)"

fun utf8_decode :: "bytes \<Rightarrow> ustr option" where
  "utf8_decode [] = Some []"
| "utf8_decode (b # bs) =
     (if b < 0x80 then map_option ((#) b) (utf8_decode bs)
      else if 0xC2 \<le> b \<and> b < 0xE0 then
        (case bs of
           b1 # r \<Rightarrow>
             if cont b1
             then map_option ((#) ((b - 0xC0) * 64 + (b1 - 0x80))) (utf8_decode r)
             else None
         | _ \<Rightarrow> None)
      else if 0xE0 \<le> b \<and> b < 0xF0 then
        (case bs of
           b1 # b2 # r \<Rightarrow>
             (let c = (b - 0xE0) * 4096 + (b1 - 0x80) * 64 + (b2 - 0x80)
              in if cont b1 \<and> cont b2 \<and> 0x800 \<le> c \<and> \<not> (0xD800 \<le> c \<and> c < 0xE000)
                 then map_option ((#) c) (utf8_decode r) else None)
         | _ \<Rightarrow> None)
      else if 0xF0 \<le> b \<and> b < 0xF5 then
        (case bs of
           b1 # b2 # b3 # r \<Rightarrow>
             (let c = (b - 0xF0) * 262144 + (b1 - 0x80) * 4096 + (b2 - 0x80) * 64 + (b3 - 0x80)
              in if cont b1 \<and> cont b2 \<and> cont b3 \<and> 0x10000 \<le> c \<and> c < 0x110000
                 then map_option ((#) c) (utf8_decode r) else None)
         | _ \<Rightarrow> None)
      else None)"

subsection \<open>Digits\<close>

definition hex_upper :: "nat \<Rightarrow> nat" where
  "hex_upper d = (if d < 10 then 48 + d else 55 + d)"

definition hex_lower :: "nat \<Rightarrow> nat" where
  "hex_lower d = (if d < 10 then 48 + d else 87 + d)"

fun show_nat :: "nat \<Rightarrow> ustr" where
  "show_nat n = (if n < 10 then [48 + n] else show_nat (n div 10) @ [48 + n mod 10])"

declare show_nat.simps [simp del]

definition show_int :: "int \<Rightarrow> ustr" where
  "show_int i = (if i < 0 then 45 # show_nat (nat (- i)) else show_nat (nat i))"

subsection \<open>\<^verbatim>\<open>json.dumps\<close>\<close>

text \<open>
  The string encoder with \<^verbatim>\<open>ensure_ascii=True\<close> (the default, which the source keeps):
  the two-character escapes of \<^verbatim>\<open>ESCAPE_DCT\<close>, \<^verbatim>\<open>\uXXXX\<close> for every other character
  outside the range from space to tilde, a surrogate pair above the basic plane.
\<close>

definition u_escape :: "nat \<Rightarrow> ustr" where
  "u_escape n = [92, 117, hex_lower (n div 4096 mod 16), hex_lower (n div 256 mod 16),
                 hex_lower (n div 16 mod 16), hex_lower (n mod 16)]"

definition json_escape_char :: "nat \<Rightarrow> ustr" where
  "json_escape_char c =
     (if c = 34 then [92, 34]
      else if c = 92 then [92, 92]
      else if c = 8 then [92, 98]
      else if c = 12 then [92, 102]
      else if c = 10 then [92, 110]
      else if c = 13 then [92, 114]
      else if c = 9 then [92, 116]
      else if 32 \<le> c \<and> c \<le> 126 then [c]
      else if c < 0x10000 then u_escape c
      else u_escape (0xD800 + ((c - 0x10000) div 1024) mod 1024)
           @ u_escape (0xDC00 + (c - 0x10000) mod 1024))"

definition json_string :: "ustr \<Rightarrow> ustr" where
  "json_string s = 34 # concat (map json_escape_char s) @ [34]"

fun join :: "ustr \<Rightarrow> ustr list \<Rightarrow> ustr" where
  "join sep [] = []"
| "join sep [x] = x"
| "join sep (x # y # ys) = x @ sep @ join sep (y # ys)"

text \<open>
  \<^verbatim>\<open>json.dumps(v, sort_keys=sk, separators=(isep, ksep))\<close>. With \<^verbatim>\<open>sort_keys\<close> the
  members of every dict, at every depth, are written in key order.
\<close>

fun json_dumps :: "bool \<Rightarrow> ustr \<Rightarrow> ustr \<Rightarrow> pyval \<Rightarrow> ustr" where
  "json_dumps sk isep ksep PNone = ascii ''null''"
| "json_dumps sk isep ksep (PBool b) = (if b then ascii ''true'' else ascii ''false'')"
| "json_dumps sk isep ksep (PInt i) = show_int i"
| "json_dumps sk isep ksep (PStr s) = json_string s"
| "json_dumps sk isep ksep (PList xs) =
     91 # join isep (map (json_dumps sk isep ksep) xs) @ [93]"
| "json_dumps sk isep ksep (PDict d) =
     123 # join isep (map (\<lambda>(k, m). json_string k @ ksep @ m)
                        ((if sk then sort_key fst else id)
                           (map (\<lambda>(k, v). (k, json_dumps sk isep ksep v)) d))) @ [125]"

text \<open>The two calls the source makes.\<close>

definition json_dumps_sorted :: "pyval \<Rightarrow> ustr" where
  "json_dumps_sorted v = json_dumps True (ascii '', '') (ascii '': '') v"

definition json_dumps_compact :: "pyval \<Rightarrow> ustr" where
  "json_dumps_compact v = json_dumps False (ascii '','') (ascii '':'') v"

subsection \<open>\<^verbatim>\<open>urllib\<close>'s \<^verbatim>\<open>quote\<close> and \<^verbatim>\<open>str.replace\<close>\<close>

text \<open>
  \<^verbatim>\<open>quote(bs, '')\<close> with an empty \<^verbatim>\<open>safe\<close> argument keeps the always-safe octets
  (letters, digits and \<^verbatim>\<open>_.-~\<close>) and writes every other octet as \<^verbatim>\<open>%XX\<close> with
  upper-case hexadecimal digits.
\<close>

definition always_safe :: "nat \<Rightarrow> bool" where
  "always_safe b = ((65 \<le> b \<and> b \<le> 90) \<or> (97 \<le> b \<and> b \<le> 122) \<or> (48 \<le> b \<and> b \<le> 57)
                     \<or> b = 95 \<or> b = 46 \<or> b = 45 \<or> b = 126)"

definition quote_byte :: "nat \<Rightarrow> ustr" where
  "quote_byte b = (if always_safe b then [b]
                   else [37, hex_upper (b div 16), hex_upper (b mod 16)])"

definition quote :: "bytes \<Rightarrow> ustr" where
  "quote bs = concat (map quote_byte bs)"

text \<open>\<^verbatim>\<open>s.replace(old, new)\<close> for a non-empty \<^verbatim>\<open>old\<close>: leftmost, non-overlapping.\<close>

function replace :: "ustr \<Rightarrow> ustr \<Rightarrow> ustr \<Rightarrow> ustr" where
  "replace old new [] = []"
| "replace old new (c # cs) =
     (if old \<noteq> [] \<and> take (length old) (c # cs) = old
      then new @ replace old new (drop (length old) (c # cs))
      else c # replace old new cs)"
  by pat_completeness auto
termination
  by (relation "measure (\<lambda>(old, new, s). length s)") (auto simp: Suc_diff_le)


section \<open>External collaborators\<close>

text \<open>
  The libraries the module calls but does not contain: \<^verbatim>\<open>hashlib\<close>, \<^verbatim>\<open>base64\<close>, the
  AES block cipher in CBC mode, the \<^verbatim>\<open>rsa\<close> package and \<^verbatim>\<open>json.loads\<close>. They are
  the fields of a record that every operation receives; a library call that can raise
  returns \<open>None\<close>. \<^verbatim>\<open>rsa.encrypt\<close> pads with random octets, which are its third
  argument here.
\<close>

record 'k lib =
  md5_hexdigest :: "bytes \<Rightarrow> ustr"
  b64encode :: "bytes \<Rightarrow> ustr"
  b64decode :: "ustr \<Rightarrow> bytes option"
  aes_cbc_encrypt :: "bytes \<Rightarrow> bytes \<Rightarrow> bytes \<Rightarrow> bytes"
  aes_cbc_decrypt :: "bytes \<Rightarrow> bytes \<Rightarrow> bytes \<Rightarrow> bytes"
  load_pkcs1_public :: "bytes \<Rightarrow> 'k option"
  load_pkcs1_openssl_pem :: "bytes \<Rightarrow> 'k option"
  load_pkcs1_private :: "bytes \<Rightarrow> 'k option"
  rsa_encrypt :: "bytes \<Rightarrow> 'k \<Rightarrow> bytes \<Rightarrow> bytes option"
  rsa_decrypt :: "bytes \<Rightarrow> 'k \<Rightarrow> bytes option"
  json_loads :: "ustr \<Rightarrow> pyval option"

fun str_of :: "pyval \<Rightarrow> ustr" where
  "str_of (PStr s) = s"
| "str_of v = []"

fun dict_of :: "pyval \<Rightarrow> pydict" where
  "dict_of (PDict d) = d"
| "dict_of v = []"

text \<open>\<^verbatim>\<open>json.loads(x)\<close>: anything that is not text is a \<^verbatim>\<open>TypeError\<close>.\<close>

fun loads :: "'k lib \<Rightarrow> pyval \<Rightarrow> error + pyval" where
  "loads L (PStr s) = (case json_loads L s of None \<Rightarrow> Inl JSONDecodeError | Some v \<Rightarrow> Inr v)"
| "loads L v = Inl TypeError"

section \<open>RSA and AES adapters\<close>

definition public_key_prefix :: bytes where
  "public_key_prefix = ascii ''-----BEGIN RSA PUBLIC KEY-----''"

definition RSAEncrypt :: "'k lib \<Rightarrow> bytes \<Rightarrow> ustr \<Rightarrow> bytes \<Rightarrow> error + ustr" where
  "RSAEncrypt L pubkey plaintext rnd =
     (case (if pubkey \<noteq> [] \<and> take (length public_key_prefix) pubkey = public_key_prefix
            then load_pkcs1_public L pubkey
            else load_pkcs1_openssl_pem L pubkey) of
        None \<Rightarrow> Inl RSALibError
      | Some pk \<Rightarrow>
          (case utf8_encode plaintext of
             None \<Rightarrow> Inl UnicodeError
           | Some m \<Rightarrow>
               (case rsa_encrypt L m pk rnd of
                  None \<Rightarrow> Inl RSALibError
                | Some c \<Rightarrow> Inr (b64encode L c))))"

definition RSADecrypt :: "'k lib \<Rightarrow> bytes \<Rightarrow> pyval \<Rightarrow> error + ustr" where
  "RSADecrypt L privkey ciphertext =
     (case load_pkcs1_private L privkey of
        None \<Rightarrow> Inl RSALibError
      | Some sk \<Rightarrow>
          (if is_str ciphertext then
             (case b64decode L (str_of ciphertext) of
                None \<Rightarrow> Inl Base64Error
              | Some cb \<Rightarrow>
                  (case rsa_decrypt L cb sk of
                     None \<Rightarrow> Inl RSALibError
                   | Some pt \<Rightarrow>
                       (case utf8_decode pt of
                          None \<Rightarrow> Inl UnicodeError
                        | Some t \<Rightarrow> Inr t)))
           else Inl TypeError))"

text \<open>\<^verbatim>\<open>AES.block_size\<close> is 16; \<^verbatim>\<open>AES.new\<close> accepts keys of 16, 24 or 32 octets.\<close>

definition PADDING :: "ustr \<Rightarrow> ustr" where
  "PADDING s = s @ replicate (16 - length s mod 16) (16 - length s mod 16)"

definition aes_key_ok :: "bytes \<Rightarrow> bool" where
  "aes_key_ok kb = (length kb = 16 \<or> length kb = 24 \<or> length kb = 32)"

definition AESEncrypt :: "'k lib \<Rightarrow> pyval \<Rightarrow> pyval \<Rightarrow> error + pyval" where
  "AESEncrypt L key plaintext =
     (if truthy key \<and> is_str key \<and> length (str_of key) mod 16 = 0
         \<and> truthy plaintext \<and> is_str plaintext
      then
        (case utf8_encode (str_of key) of
           None \<Rightarrow> Inl UnicodeError
         | Some kb \<Rightarrow>
             if aes_key_ok kb then
               (case utf8_encode (PADDING (str_of plaintext)) of
                  None \<Rightarrow> Inl UnicodeError
                | Some pb \<Rightarrow>
                    if length pb mod 16 = 0
                    then Inr (PStr (b64encode L (aes_cbc_encrypt L kb (take 16 kb) pb)))
                    else Inl ValueError)
             else Inl ValueError)
      else Inl AESError)"

text \<open>
  The character class of the substitution in \<^verbatim>\<open>AESDecrypt\<close>:
  \<^verbatim>\<open>[\x00-\x08\x0b-\x0c\x0e-\x1f\n\r\t]\<close>.
\<close>

definition illegal_char :: "nat \<Rightarrow> bool" where
  "illegal_char c = (c \<le> 8 \<or> (11 \<le> c \<and> c \<le> 12) \<or> (14 \<le> c \<and> c \<le> 31)
                      \<or> c = 10 \<or> c = 13 \<or> c = 9)"

definition AESDecrypt :: "'k lib \<Rightarrow> pyval \<Rightarrow> pyval \<Rightarrow> error + pyval" where
  "AESDecrypt L key ciphertext =
     (if truthy key \<and> is_str key \<and> length (str_of key) mod 16 = 0
         \<and> truthy ciphertext \<and> is_str ciphertext
      then
        (case utf8_encode (str_of key) of
           None \<Rightarrow> Inl UnicodeError
         | Some kb \<Rightarrow>
             if aes_key_ok kb then
               (case b64decode L (str_of ciphertext
                                   @ replicate (length (str_of ciphertext) mod 4) 61) of
                  None \<Rightarrow> Inl Base64Error
                | Some db \<Rightarrow>
                    if length db mod 16 = 0 then
                      (case utf8_decode (aes_cbc_decrypt L kb (take 16 kb) db) of
                         None \<Rightarrow> Inr (PBool False)
                       | Some t \<Rightarrow> Inr (PStr (filter (\<lambda>c. \<not> illegal_char c) t)))
                    else Inl ValueError)
             else Inl ValueError)
      else Inl AESError)"

section \<open>The signer: \<^verbatim>\<open>EncryptedCommunicationMix\<close>\<close>

definition md5 :: "'k lib \<Rightarrow> ustr \<Rightarrow> error + ustr" where
  "md5 L message = (case utf8_encode message of
                      None \<Rightarrow> Inl UnicodeError
                    | Some b \<Rightarrow> Inr (md5_hexdigest L b))"

text \<open>\<^verbatim>\<open>genAesKey\<close> digests 16 random octets, which are an argument here.\<close>

definition genAesKey :: "'k lib \<Rightarrow> bytes \<Rightarrow> ustr" where
  "genAesKey L rnd = md5_hexdigest L rnd"

text \<open>
  \<^verbatim>\<open>\s\<close> in a pattern over \<^verbatim>\<open>str\<close> is Unicode white space. Splitting at
  \<^verbatim>\<open>\s*,\s*\<close> cuts at every comma and drops the white space on both sides of it.
\<close>

definition is_space :: "nat \<Rightarrow> bool" where
  "is_space c = ((9 \<le> c \<and> c \<le> 13) \<or> (28 \<le> c \<and> c \<le> 32) \<or> c = 0x85 \<or> c = 0xA0
                  \<or> c = 0x1680 \<or> (0x2000 \<le> c \<and> c \<le> 0x200A) \<or> c = 0x2028 \<or> c = 0x2029
                  \<or> c = 0x202F \<or> c = 0x205F \<or> c = 0x3000)"

definition rstrip_space :: "ustr \<Rightarrow> ustr" where
  "rstrip_space s = rev (dropWhile is_space (rev s))"

function re_split_comma :: "ustr \<Rightarrow> ustr list" where
  "re_split_comma s =
     (if 44 \<in> set s
      then rstrip_space (takeWhile (\<lambda>c. c \<noteq> 44) s)
           # re_split_comma (dropWhile is_space (tl (dropWhile (\<lambda>c. c \<noteq> 44) s)))
      else [s])"
  by pat_completeness auto
termination
proof (relation "measure length")
  show "wf (measure length)" by simp
next
  fix s :: ustr
  assume c: "44 \<in> set s"
  then have ne: "dropWhile (\<lambda>c. c \<noteq> 44) s \<noteq> []" by simp
  have "length (dropWhile is_space (tl (dropWhile (\<lambda>c. c \<noteq> 44) s)))
          \<le> length (tl (dropWhile (\<lambda>c. c \<noteq> 44) s))"
    by (rule length_dropWhile_le)
  also have "\<dots> < length (dropWhile (\<lambda>c. c \<noteq> 44) s)"
    using ne by (cases "dropWhile (\<lambda>c. c \<noteq> 44) s") simp_all
  also have "\<dots> \<le> length s" by (rule length_dropWhile_le)
  finally show "(dropWhile is_space (tl (dropWhile (\<lambda>c. c \<noteq> 44) s)), s) \<in> measure length"
    by simp
qed

declare re_split_comma.simps [simp del]

definition conversionComma :: "pyval \<Rightarrow> ustr list" where
  "conversionComma comma_str =
     (if truthy comma_str \<and> is_str comma_str
      then filter (\<lambda>i. i \<noteq> []) (re_split_comma (str_of comma_str))
      else [])"

text \<open>
  \<^verbatim>\<open>_percent_encode\<close>: the sorted JSON text of the item, quoted, then the three
  replacements in the order of the source.
\<close>

definition percent_encode :: "pyval \<Rightarrow> error + ustr" where
  "percent_encode encodeStr =
     (case utf8_encode (json_dumps_sorted encodeStr) of
        None \<Rightarrow> Inl UnicodeError
      | Some b \<Rightarrow>
          Inr (replace (ascii ''%7E'') (ascii ''~'')
                (replace (ascii ''*'') (ascii ''%2A'')
                  (replace (ascii ''+'') (ascii ''%20'') (quote b)))))"

text \<open>The loop \<^verbatim>\<open>for k in signIndex: data[k] = parameters[k]\<close>.\<close>

fun select_items :: "pydict \<Rightarrow> ustr list \<Rightarrow> pydict \<Rightarrow> error + pydict" where
  "select_items p [] data = Inr data"
| "select_items p (k # ks) data =
     (case dict_item p k of
        Inl e \<Rightarrow> Inl e
      | Inr v \<Rightarrow> select_items p ks (AList.update k v data))"

text \<open>The loop \<^verbatim>\<open>for k, v in meta.items(): data[k] = v\<close>.\<close>

fun add_meta :: "pydict \<Rightarrow> pydict \<Rightarrow> pydict" where
  "add_meta data [] = data"
| "add_meta data ((k, v) # m) = add_meta (AList.update k v data) m"

text \<open>The loop that builds \<^verbatim>\<open>canonicalizedQueryString\<close> from the sorted items.\<close>

fun canonicalize :: "ustr \<Rightarrow> pydict \<Rightarrow> error + ustr" where
  "canonicalize acc [] = Inr acc"
| "canonicalize acc ((k, v) # items) =
     (case percent_encode (PStr k) of
        Inl e \<Rightarrow> Inl e
      | Inr ek \<Rightarrow>
          (case percent_encode v of
             Inl e \<Rightarrow> Inl e
           | Inr ev \<Rightarrow> canonicalize (acc @ ek @ [61] @ ev @ [38]) items))"

text \<open>
  \<^verbatim>\<open>sign\<close> returns \<^verbatim>\<open>None\<close> when \<^verbatim>\<open>SignatureIndex\<close> is the object \<^verbatim>\<open>False\<close>,
  and the digest as a \<^verbatim>\<open>str\<close> otherwise.
\<close>

definition sign :: "'k lib \<Rightarrow> pyval \<Rightarrow> pyval \<Rightarrow> error + pyval" where
  "sign L parameters meta =
     (if is_dict parameters \<and> is_dict meta then
        (let signIndex = dict_get (dict_of meta) (ascii ''SignatureIndex'') PNone in
         if signIndex = PBool False then Inr PNone
         else
           (case (if truthy signIndex \<and> is_str signIndex
                  then select_items (dict_of parameters) (conversionComma signIndex) []
                  else Inr (dict_of parameters)) of
              Inl e \<Rightarrow> Inl e
            | Inr data \<Rightarrow>
                (case canonicalize [] (sort_key fst (add_meta data (dict_of meta))) of
                   Inl e \<Rightarrow> Inl e
                 | Inr cqs \<Rightarrow>
                     (case md5 L cqs of
                        Inl e \<Rightarrow> Inl e
                      | Inr h \<Rightarrow> Inr (PStr h)))))
      else Inl TypeError)"

section \<open>Client and server\<close>

text \<open>
  The clock (\<^verbatim>\<open>get_current_timestamp\<close>) and the random octets are arguments of the
  operations that read them.
\<close>

record client =
  c_AESKey :: ustr
  c_PublicKey :: bytes

record server =
  s_PrivateKey :: bytes
  s_AESKey :: pyval

definition client_init :: "'k lib \<Rightarrow> bytes \<Rightarrow> bytes \<Rightarrow> client" where
  "client_init L rnd PublicKey = \<lparr>c_AESKey = genAesKey L rnd, c_PublicKey = PublicKey\<rparr>"

definition server_init :: "bytes \<Rightarrow> server" where
  "server_init PrivateKey = \<lparr>s_PrivateKey = PrivateKey, s_AESKey = PNone\<rparr>"

definition new_meta :: "ustr \<Rightarrow> pyval \<Rightarrow> pydict" where
  "new_meta ts signIndex =
     [(ascii ''Timestamp'', PStr ts),
      (ascii ''SignatureVersion'', PStr (ascii ''v1'')),
      (ascii ''SignatureMethod'', PStr (ascii ''MD5'')),
      (ascii ''SignatureIndex'', signIndex)]"

text \<open>
  The steps \<^verbatim>\<open>clientEncrypt\<close> and \<^verbatim>\<open>serverEncrypt\<close> have in common: build the
  metadata, sign, put the signature into the metadata and the metadata into the copy of
  the payload under \<^verbatim>\<open>__meta__\<close>.
\<close>

definition with_meta :: "'k lib \<Rightarrow> ustr \<Rightarrow> pydict \<Rightarrow> pyval \<Rightarrow> error + pyval" where
  "with_meta L ts data signIndex =
     (case sign L (PDict data) (PDict (new_meta ts signIndex)) of
        Inl e \<Rightarrow> Inl e
      | Inr sg \<Rightarrow>
          Inr (PDict (AList.update (ascii ''__meta__'')
                        (PDict (AList.update (ascii ''Signature'') sg (new_meta ts signIndex)))
                        data)))"

definition clientEncrypt ::
  "'k lib \<Rightarrow> client \<Rightarrow> ustr \<Rightarrow> bytes \<Rightarrow> pyval \<Rightarrow> pyval \<Rightarrow> error + pyval" where
  "clientEncrypt L c ts rnd post signIndex =
     (if truthy post \<and> is_dict post then
        (case RSAEncrypt L (c_PublicKey c) (c_AESKey c) rnd of
           Inl e \<Rightarrow> Inl e
         | Inr RSAKey \<Rightarrow>
             (case with_meta L ts (dict_of post) signIndex of
                Inl e \<Rightarrow> Inl e
              | Inr postData \<Rightarrow>
                  (case AESEncrypt L (PStr (c_AESKey c))
                          (PStr (json_dumps_compact postData)) of
                     Inl e \<Rightarrow> Inl e
                   | Inr ct \<Rightarrow> Inr (PDict [(ascii ''key'', PStr RSAKey), (ascii ''value'', ct)]))))
      else Inl TypeError)"

text \<open>
  The part \<^verbatim>\<open>clientDecrypt\<close> and \<^verbatim>\<open>serverDecrypt\<close> have in common, from \<^verbatim>\<open>json.loads\<close>
  to the comparison. The recomputed signature is \<^verbatim>\<open>None\<close> or a \<^verbatim>\<open>str\<close>, for which
  Python's \<^verbatim>\<open>==\<close> is equality of values.
\<close>

definition verify :: "'k lib \<Rightarrow> pyval \<Rightarrow> error + pyval" where
  "verify L plain =
     (case loads L plain of
        Inl e \<Rightarrow> Inl e
      | Inr doc \<Rightarrow>
          (case obj_pop doc (ascii ''__meta__'') of
             Inl e \<Rightarrow> Inl e
           | Inr (metaData, data) \<Rightarrow>
               (case obj_pop metaData (ascii ''Signature'') of
                  Inl e \<Rightarrow> Inl e
                | Inr (Signature, metaData') \<Rightarrow>
                    (case sign L (PDict data) (PDict metaData') of
                       Inl e \<Rightarrow> Inl e
                     | Inr SignData \<Rightarrow>
                         if Signature = SignData then Inr (PDict data)
                         else Inl SignError))))"

definition clientDecrypt :: "'k lib \<Rightarrow> client \<Rightarrow> pyval \<Rightarrow> error + pyval" where
  "clientDecrypt L c encryptedRespData =
     (if truthy encryptedRespData \<and> is_dict encryptedRespData
         \<and> map_of (dict_of encryptedRespData) (ascii ''data'') \<noteq> None
      then
        (case AESDecrypt L (PStr (c_AESKey c))
                (dict_get (dict_of encryptedRespData) (ascii ''data'') PNone) of
           Inl e \<Rightarrow> Inl e
         | Inr plain \<Rightarrow> verify L plain)
      else Inl TypeError)"

text \<open>
  \<^verbatim>\<open>serverDecrypt\<close> assigns \<^verbatim>\<open>self.AESKey\<close> as soon as the RSA layer is open, before
  anything else can fail: the new state is part of every outcome.
\<close>

definition serverDecrypt :: "'k lib \<Rightarrow> server \<Rightarrow> pyval \<Rightarrow> server \<times> (error + pyval)" where
  "serverDecrypt L s encryptedPostData =
     (if truthy encryptedPostData \<and> is_dict encryptedPostData
         \<and> map_of (dict_of encryptedPostData) (ascii ''key'') \<noteq> None
         \<and> map_of (dict_of encryptedPostData) (ascii ''value'') \<noteq> None
      then
        (case RSADecrypt L (s_PrivateKey s)
                (dict_get (dict_of encryptedPostData) (ascii ''key'') PNone) of
           Inl e \<Rightarrow> (s, Inl e)
         | Inr k \<Rightarrow>
             (s\<lparr>s_AESKey := PStr k\<rparr>,
              (case AESDecrypt L (PStr k)
                      (dict_get (dict_of encryptedPostData) (ascii ''value'') PNone) of
                 Inl e \<Rightarrow> Inl e
               | Inr plain \<Rightarrow> verify L plain)))
      else (s, Inl TypeError))"

definition serverEncrypt ::
  "'k lib \<Rightarrow> server \<Rightarrow> ustr \<Rightarrow> pyval \<Rightarrow> pyval \<Rightarrow> error + pyval" where
  "serverEncrypt L s ts resp signIndex =
     (if truthy (s_AESKey s) then
        (if truthy resp \<and> is_dict resp then
           (case with_meta L ts (dict_of resp) signIndex of
              Inl e \<Rightarrow> Inl e
            | Inr respData \<Rightarrow>
                (case AESEncrypt L (s_AESKey s) (PStr (json_dumps_compact respData)) of
                   Inl e \<Rightarrow> Inl e
                 | Inr ct \<Rightarrow> Inr (PDict [(ascii ''data'', ct)])))
         else Inl TypeError)
      else Inl ValueError)"

section \<open>What is assumed of the libraries\<close>

text \<open>
  Base64 decoding inverts encoding, and the encoded text has a length divisible by 4 and
  is empty only for empty input. CBC decryption inverts encryption under the same key and
  IV and keeps the length. A key pair is valid when both keys load, a message of up to 32
  octets can be encrypted, and decryption recovers whatever was encrypted.
\<close>

definition b64_ok :: "'k lib \<Rightarrow> bool" where
  "b64_ok L = (\<forall>bs. b64decode L (b64encode L bs) = Some bs
                    \<and> length (b64encode L bs) mod 4 = 0
                    \<and> ((b64encode L bs = []) = (bs = [])))"

definition aes_ok :: "'k lib \<Rightarrow> bool" where
  "aes_ok L = (\<forall>k iv d. aes_cbc_decrypt L k iv (aes_cbc_encrypt L k iv d) = d
                      \<and> length (aes_cbc_encrypt L k iv d) = length d)"

definition load_public :: "'k lib \<Rightarrow> bytes \<Rightarrow> 'k option" where
  "load_public L pubkey =
     (if pubkey \<noteq> [] \<and> take (length public_key_prefix) pubkey = public_key_prefix
      then load_pkcs1_public L pubkey
      else load_pkcs1_openssl_pem L pubkey)"

definition valid_keypair :: "'k lib \<Rightarrow> bytes \<Rightarrow> bytes \<Rightarrow> bool" where
  "valid_keypair L pubkey privkey =
     (\<exists>pk sk. load_public L pubkey = Some pk \<and> load_pkcs1_private L privkey = Some sk
        \<and> (\<forall>m rnd. length m \<le> 32 \<longrightarrow>
              (\<exists>c. rsa_encrypt L m pk rnd = Some c \<and> rsa_decrypt L c sk = Some m)))"

text \<open>A digest is 32 lower-case hexadecimal digits.\<close>

definition md5_ok :: "'k lib \<Rightarrow> bool" where
  "md5_ok L = (\<forall>b. length (md5_hexdigest L b) = 32
                  \<and> list_all (\<lambda>c. 48 \<le> c \<and> c < 128) (md5_hexdigest L b))"

text \<open>\<^verbatim>\<open>json.loads\<close> reads back the document that \<^verbatim>\<open>json.dumps\<close> wrote.\<close>

definition loads_inverts :: "'k lib \<Rightarrow> pyval \<Rightarrow> bool" where
  "loads_inverts L doc = (json_loads L (json_dumps_compact doc) = Some doc)"

section \<open>A stand-in library\<close>

text \<open>
  Concrete inputs need a concrete library. This one has the algebraic properties above
  and nothing else: the cipher reverses the octets, the text encoding writes each octet
  followed by three \<^verbatim>\<open>=\<close>, the digest is made of the low four bits of its input, and
  the JSON reader knows a fixed list of documents.
\<close>

fun every4th :: "nat list \<Rightarrow> nat list" where
  "every4th (a # b # c # d # r) = a # every4th r"
| "every4th r = []"

definition toy_lib :: "pyval list \<Rightarrow> nat lib" where
  "toy_lib docs =
     \<lparr>md5_hexdigest = (\<lambda>b. take 32 (map (\<lambda>x. hex_lower (x mod 16)) b @ replicate 32 48)),
      b64encode = (\<lambda>bs. concat (map (\<lambda>b. [b, 61, 61, 61]) bs)),
      b64decode = (\<lambda>s. Some (every4th s)),
      aes_cbc_encrypt = (\<lambda>k iv d. rev d),
      aes_cbc_decrypt = (\<lambda>k iv d. rev d),
      load_pkcs1_public = (\<lambda>b. Some (length b)),
      load_pkcs1_openssl_pem = (\<lambda>b. Some (length b)),
      load_pkcs1_private = (\<lambda>b. Some (length b)),
      rsa_encrypt = (\<lambda>m k rnd. Some (rev m)),
      rsa_decrypt = (\<lambda>c k. Some (rev c)),
      json_loads = (\<lambda>s. map_of (map (\<lambda>d. (json_dumps_compact d, d)) docs) s)\<rparr>"

definition toy_key :: ustr where
  "toy_key = ascii ''0123456789abcdef''"

definition ff16 :: bytes where
  "ff16 = [255, 255, 255, 255, 255, 255, 255, 255, 255, 255, 255, 255, 255, 255, 255, 255]"

definition two_lines :: bytes where
  "two_lines = ascii ''line1'' @ [10] @ ascii ''line2'' @ [5, 5, 5, 5, 5]"

text \<open>
  A run on that library: a client and a server with empty key material, a login request,
  its answer, and a document whose signature was not computed from its content.
\<close>

definition demo_ts :: ustr where
  "demo_ts = ascii ''2019-01-01T00:00:00Z''"

definition demo_P :: pydict where
  "demo_P = [(ascii ''action'', PStr (ascii ''login'')), (ascii ''user'', PStr (ascii ''alice''))]"

definition demo_R :: pydict where
  "demo_R = [(ascii ''status'', PStr (ascii ''ok''))]"

definition demo_forged :: pyval where
  "demo_forged =
     PDict [(ascii ''x'', PInt 1),
            (ascii ''__meta__'',
             PDict [(ascii ''SignatureIndex'', PNone), (ascii ''Signature'', PStr (ascii ''00''))])]"

definition demo_docs :: "pyval list" where
  "demo_docs = [projr (with_meta (toy_lib []) demo_ts demo_P PNone),
                projr (with_meta (toy_lib []) demo_ts demo_R PNone),
                demo_forged]"

definition demo_lib :: "nat lib" where
  "demo_lib = toy_lib demo_docs"

definition demo_client :: client where
  "demo_client = client_init demo_lib [] []"

definition demo_request :: pyval where
  "demo_request = projr (clientEncrypt demo_lib demo_client demo_ts [] (PDict demo_P) PNone)"

definition demo_forged_ct :: pyval where
  "demo_forged_ct =
     projr (AESEncrypt demo_lib (PStr (c_AESKey demo_client)) (PStr (json_dumps_compact demo_forged)))"

definition demo_rk :: pyval where
  "demo_rk = PStr (projr (RSAEncrypt demo_lib [] (c_AESKey demo_client) []))"

section \<open>Notions used in the statements\<close>

text \<open>Text made of the characters from space to tilde.\<close>

definition printable :: "ustr \<Rightarrow> bool" where
  "printable s = list_all (\<lambda>c. 32 \<le> c \<and> c \<le> 126) s"

text \<open>
  The encoded form of a key or a value of the signing string: its sorted JSON text,
  quoted octet by octet.
\<close>

definition item_encoding :: "pyval \<Rightarrow> ustr" where
  "item_encoding v = quote (json_dumps_sorted v)"

text \<open>
  The encoding as the specification words it, character by character: \<^verbatim>\<open>*\<close> escaped,
  \<^verbatim>\<open>~\<close> kept, \<^verbatim>\<open>+\<close> mapped to \<^verbatim>\<open>%20\<close>, percent-encoding otherwise.
\<close>

definition spec_escape :: "nat \<Rightarrow> ustr" where
  "spec_escape c =
     (if c = 42 then ascii ''%2A''
      else if c = 126 then ascii ''~''
      else if c = 43 then ascii ''%20''
      else quote_byte c)"

definition spec_item_encoding :: "pyval \<Rightarrow> ustr" where
  "spec_item_encoding v = concat (map spec_escape (json_dumps_sorted v))"

text \<open>
  The payload keys that take part in signing, and the signing string of a merged mapping:
  its pairs in ascending key order, each written as encoded key, \<^verbatim>\<open>=\<close>, encoded value,
  \<^verbatim>\<open>&\<close>.
\<close>

definition signed_keys :: "pyval \<Rightarrow> pydict \<Rightarrow> ustr set" where
  "signed_keys signIndex P =
     (if truthy signIndex \<and> is_str signIndex then set (conversionComma signIndex)
      else fst ` set P)"

definition canonical_item :: "ustr \<times> pyval \<Rightarrow> ustr" where
  "canonical_item kv =
     item_encoding (PStr (fst kv)) @ ascii ''='' @ item_encoding (snd kv) @ ascii ''&''"

definition canonical_string :: "(ustr \<rightharpoonup> pyval) \<Rightarrow> ustr" where
  "canonical_string m =
     concat (map (\<lambda>k. canonical_item (k, the (m k))) (sorted_list_of_set (dom m)))"

section \<open>Facts about the encodings\<close>

lemma illegal_char_iff: "illegal_char c = (c < 32)"
  by (auto simp: illegal_char_def)

lemma printable_simps [simp]:
  "printable []" "printable (c # s) = (32 \<le> c \<and> c \<le> 126 \<and> printable s)"
  "printable (s @ t) = (printable s \<and> printable t)"
  by (auto simp: printable_def)

lemma printable_ascii_digits: "n < 10 \<Longrightarrow> 32 \<le> 48 + n \<and> 48 + n \<le> (126::nat)"
  by simp

lemma printable_show_nat: "printable (show_nat n)"
proof (induction n rule: show_nat.induct)
  case (1 n)
  show ?case
  proof (cases "n < 10")
    case True
    then show ?thesis by (subst show_nat.simps) simp
  next
    case False
    have "n mod 10 < 10" by simp
    then have "48 + n mod 10 \<le> 126" by linarith
    with False 1 show ?thesis by (subst show_nat.simps) simp
  qed
qed

lemma printable_show_int: "printable (show_int i)"
  by (simp add: show_int_def printable_show_nat)

lemma hex_lower_printable: "d < 16 \<Longrightarrow> 32 \<le> hex_lower d \<and> hex_lower d \<le> 126"
  by (simp add: hex_lower_def)

lemma printable_u_escape: "printable (u_escape n)"
  by (simp add: u_escape_def hex_lower_printable)

lemma printable_json_escape_char: "printable (json_escape_char c)"
  by (simp add: json_escape_char_def printable_u_escape)

lemma printable_concat: "(\<And>x. x \<in> set xs \<Longrightarrow> printable x) \<Longrightarrow> printable (concat xs)"
  by (induction xs) auto

lemma printable_json_string: "printable (json_string s)"
  by (auto simp: json_string_def printable_json_escape_char intro!: printable_concat)

lemma printable_join:
  "printable sep \<Longrightarrow> (\<And>x. x \<in> set xs \<Longrightarrow> printable x) \<Longrightarrow> printable (join sep xs)"
  by (induction sep xs rule: join.induct) auto

lemma printable_json_dumps:
  "printable isep \<Longrightarrow> printable ksep \<Longrightarrow> printable (json_dumps sk isep ksep v)"
proof (induction sk isep ksep v rule: json_dumps.induct)
  case (5 sk isep ksep xs)
  then show ?case by (auto intro!: printable_join)
next
  case (6 sk isep ksep d)
  have "printable (join isep (map (\<lambda>(k, m). json_string k @ ksep @ m)
                        ((if sk then sort_key fst else id)
                           (map (\<lambda>(k, v). (k, json_dumps sk isep ksep v)) d))))"
  proof (rule printable_join)
    show "printable isep" by (rule 6)
  next
    fix x assume "x \<in> set (map (\<lambda>(k, m). json_string k @ ksep @ m)
                        ((if sk then sort_key fst else id)
                           (map (\<lambda>(k, v). (k, json_dumps sk isep ksep v)) d)))"
    then obtain k v where "(k, v) \<in> set d" and x: "x = json_string k @ ksep @ json_dumps sk isep ksep v"
      by (auto split: if_splits)
    with 6 show "printable x" by (simp add: printable_json_string)
  qed
  then show ?case by simp
qed (simp_all add: ascii_def printable_show_int printable_json_string)

lemma printable_json_dumps_compact: "printable (json_dumps_compact v)"
  by (simp add: json_dumps_compact_def printable_json_dumps ascii_def)

lemma printable_json_dumps_sorted: "printable (json_dumps_sorted v)"
  by (simp add: json_dumps_sorted_def printable_json_dumps ascii_def)

lemma utf8_encode_ascii: "list_all (\<lambda>c. c < 128) s \<Longrightarrow> utf8_encode s = Some s"
  by (induction s) (auto simp: utf8_char_def)

lemma utf8_decode_ascii: "list_all (\<lambda>c. c < 128) s \<Longrightarrow> utf8_decode s = Some s"
  by (induction s) auto

lemma printable_ascii: "printable s \<Longrightarrow> list_all (\<lambda>c. c < 128) s"
  by (induction s) auto


subsection \<open>Quoting and the three replacements\<close>

lemma replace_single_absent: "c \<notin> set s \<Longrightarrow> replace [c] new s = s"
  by (induction s) auto

lemma hex_upper_safe: "d < 16 \<Longrightarrow> always_safe (hex_upper d)"
  by (auto simp: hex_upper_def always_safe_def)

lemma set_quote_byte: "b < 256 \<Longrightarrow> x \<in> set (quote_byte b) \<Longrightarrow> always_safe x \<or> x = 37"
  by (auto simp: quote_byte_def hex_upper_safe split: if_splits)

lemma set_quote: "list_all (\<lambda>b. b < 256) bs \<Longrightarrow> x \<in> set (quote bs) \<Longrightarrow> always_safe x \<or> x = 37"
  by (induction bs) (auto simp: quote_def dest: set_quote_byte)

lemma quote_no_plus: "list_all (\<lambda>b. b < 256) bs \<Longrightarrow> 43 \<notin> set (quote bs)"
  using set_quote [of bs 43] by (auto simp: always_safe_def)

lemma quote_no_star: "list_all (\<lambda>b. b < 256) bs \<Longrightarrow> 42 \<notin> set (quote bs)"
  using set_quote [of bs 42] by (auto simp: always_safe_def)

lemma replace_7E_skip:
  "c \<noteq> 37 \<Longrightarrow> replace [37, 55, 69] new (c # cs) = c # replace [37, 55, 69] new cs"
  by auto

lemma replace_7E_other:
  "\<not> (h = 55 \<and> l = 69) \<Longrightarrow>
     replace [37, 55, 69] new (37 # h # l # cs) = 37 # replace [37, 55, 69] new (h # l # cs)"
  by auto

lemma hex_upper_not_percent: "d < 16 \<Longrightarrow> hex_upper d \<noteq> 37"
  by (auto simp: hex_upper_def)

lemma hex_upper_7E:
  assumes "b < 256" "hex_upper (b div 16) = 55" "hex_upper (b mod 16) = 69"
  shows "b = 126"
proof -
  have "b div 16 < 16" using assms(1) by simp
  then have "b div 16 = 7" using assms(2) by (auto simp: hex_upper_def split: if_splits)
  moreover have "b mod 16 = 14" using assms(3) by (auto simp: hex_upper_def split: if_splits)
  ultimately show ?thesis by presburger
qed

lemma replace_7E_quote_byte:
  assumes "b < 256"
  shows "replace [37, 55, 69] new (quote_byte b @ cs) = quote_byte b @ replace [37, 55, 69] new cs"
proof (cases "always_safe b")
  case True
  then have "b \<noteq> 37" by (auto simp: always_safe_def)
  with True show ?thesis by (simp add: quote_byte_def)
next
  case False
  have d: "b div 16 < 16" "b mod 16 < 16" using assms by simp_all
  have ne: "\<not> (hex_upper (b div 16) = 55 \<and> hex_upper (b mod 16) = 69)"
    using hex_upper_7E [OF assms] False by (auto simp: always_safe_def)
  have "replace [37, 55, 69] new (37 # hex_upper (b div 16) # hex_upper (b mod 16) # cs)
        = 37 # replace [37, 55, 69] new (hex_upper (b div 16) # hex_upper (b mod 16) # cs)"
    by (rule replace_7E_other [OF ne])
  also have "\<dots> = 37 # hex_upper (b div 16) # replace [37, 55, 69] new (hex_upper (b mod 16) # cs)"
    using hex_upper_not_percent [OF d(1)] by (simp add: replace_7E_skip del: replace.simps)
  also have "\<dots> = 37 # hex_upper (b div 16) # hex_upper (b mod 16) # replace [37, 55, 69] new cs"
    using hex_upper_not_percent [OF d(2)] by (simp add: replace_7E_skip del: replace.simps)
  finally show ?thesis using False by (simp add: quote_byte_def)
qed

lemma replace_7E_quote:
  "list_all (\<lambda>b. b < 256) bs \<Longrightarrow> replace [37, 55, 69] new (quote bs) = quote bs"
proof (induction bs)
  case Nil
  show ?case by (simp add: quote_def)
next
  case (Cons b bs)
  then have "replace [37, 55, 69] new (quote_byte b @ quote bs) = quote_byte b @ quote bs"
    by (simp add: replace_7E_quote_byte)
  then show ?case by (simp add: quote_def)
qed

lemma percent_encode_eq: "percent_encode v = Inr (item_encoding v)"
proof -
  let ?t = "json_dumps_sorted v"
  have a: "list_all (\<lambda>c. c < 128) ?t"
    by (rule printable_ascii [OF printable_json_dumps_sorted])
  then have b: "list_all (\<lambda>c. c < 256) ?t"
    by (rule list.pred_mono_strong) simp
  have e: "utf8_encode ?t = Some ?t" by (rule utf8_encode_ascii [OF a])
  have 1: "replace (ascii ''+'') (ascii ''%20'') (quote ?t) = quote ?t"
    using quote_no_plus [OF b] by (simp add: ascii_def replace_single_absent)
  have 2: "replace (ascii ''*'') (ascii ''%2A'') (quote ?t) = quote ?t"
    using quote_no_star [OF b] by (simp add: ascii_def replace_single_absent)
  have 3: "replace (ascii ''%7E'') (ascii ''~'') (quote ?t) = quote ?t"
    using replace_7E_quote [OF b] by (simp add: ascii_def)
  show ?thesis
    by (simp add: percent_encode_def e 1 2 3 item_encoding_def)
qed


subsection \<open>The stand-in library and the AES adapters\<close>

lemma every4th_toy: "every4th (concat (map (\<lambda>b. [b, 61, 61, 61]) bs)) = bs"
  by (induction bs) auto

lemma length_toy_b64: "length (concat (map (\<lambda>b. [b, 61::nat, 61, 61]) bs)) = 4 * length bs"
  by (induction bs) auto

lemma toy_b64_ok: "b64_ok (toy_lib docs)"
  by (auto simp: b64_ok_def toy_lib_def every4th_toy length_toy_b64)

lemma toy_aes_ok: "aes_ok (toy_lib docs)"
  by (simp add: aes_ok_def toy_lib_def)

lemma PADDING_length: "length (PADDING s) mod 16 = 0"
proof -
  have "length (PADDING s) = length s + (16 - length s mod 16)"
    by (simp add: PADDING_def)
  also have "\<dots> = 16 * (length s div 16) + 16"
    by presburger
  finally show ?thesis by simp
qed

lemma PADDING_ascii: "list_all (\<lambda>c. c < 128) s \<Longrightarrow> list_all (\<lambda>c. c < 128) (PADDING s)"
  by (simp add: PADDING_def list_all_iff)

lemma AESEncrypt_printable:
  assumes "key \<noteq> []" "length key mod 16 = 0" "utf8_encode key = Some kb" "aes_key_ok kb"
    and "t \<noteq> []" "printable t"
  shows "AESEncrypt L (PStr key) (PStr t)
         = Inr (PStr (b64encode L (aes_cbc_encrypt L kb (take 16 kb) (PADDING t))))"
proof -
  have "utf8_encode (PADDING t) = Some (PADDING t)"
    by (rule utf8_encode_ascii [OF PADDING_ascii [OF printable_ascii [OF assms(6)]]])
  then show ?thesis
    using assms by (simp add: AESEncrypt_def PADDING_length)
qed

lemma AESDecrypt_key:
  assumes "AESDecrypt L (PStr k) ct = Inr x"
  shows "k \<noteq> [] \<and> length k mod 16 = 0 \<and> (\<exists>kb. utf8_encode k = Some kb \<and> aes_key_ok kb)"
  using assms by (auto simp: AESDecrypt_def split: if_splits option.splits)

lemma json_dumps_compact_dict_nonempty: "json_dumps_compact (PDict d) \<noteq> []"
  by (simp add: json_dumps_compact_def)

lemma with_meta_dict: "with_meta L ts data idx = Inr d \<Longrightarrow> is_dict d"
  by (auto simp: with_meta_def split: sum.splits)

subsection \<open>Outcomes of the server operations\<close>

lemma serverDecrypt_ok:
  assumes "serverDecrypt L s env = (s', Inr p)"
  shows "\<exists>k plain. RSADecrypt L (s_PrivateKey s) (dict_get (dict_of env) (ascii ''key'') PNone) = Inr k
           \<and> s' = s\<lparr>s_AESKey := PStr k\<rparr>
           \<and> AESDecrypt L (PStr k) (dict_get (dict_of env) (ascii ''value'') PNone) = Inr plain
           \<and> verify L plain = Inr p"
  using assms
  by (auto simp: serverDecrypt_def split: if_splits sum.splits)

lemma with_meta_is_dict: "with_meta L ts data idx = Inr d \<Longrightarrow> \<exists>dd. d = PDict dd"
  by (auto simp: with_meta_def split: sum.splits)

subsection \<open>The signing string\<close>

lemma canonicalize_eq:
  "canonicalize acc items = Inr (acc @ concat (map canonical_item items))"
  by (induction acc items rule: canonicalize.induct)
     (simp_all add: percent_encode_eq canonical_item_def ascii_def)

lemma always_safe_ascii: "always_safe x \<Longrightarrow> x < 128"
  by (auto simp: always_safe_def)

lemma item_encoding_ascii: "list_all (\<lambda>c. c < 128) (item_encoding v)"
proof -
  have "list_all (\<lambda>c. c < 256) (json_dumps_sorted v)"
    by (rule list.pred_mono_strong [OF printable_ascii [OF printable_json_dumps_sorted]]) simp
  then have "\<And>x. x \<in> set (quote (json_dumps_sorted v)) \<Longrightarrow> x < 128"
    using set_quote always_safe_ascii by fastforce
  then show ?thesis by (simp add: item_encoding_def list_all_iff)
qed

lemma canonical_items_ascii:
  "list_all (\<lambda>c. c < 128) (concat (map canonical_item items))"
  by (induction items) (auto simp: item_encoding_ascii canonical_item_def ascii_def)

lemma md5_ascii: "list_all (\<lambda>c. c < 128) s \<Longrightarrow> md5 L s = Inr (md5_hexdigest L s)"
  by (simp add: md5_def utf8_encode_ascii)

lemma map_of_add_meta:
  "distinct (map fst m) \<Longrightarrow> map_of (add_meta data m) = map_of data ++ map_of m"
proof (induction m arbitrary: data)
  case Nil
  show ?case by simp
next
  case (Cons a m)
  obtain k v where a: "a = (k, v)" by (cases a)
  from Cons.prems have k: "k \<notin> dom (map_of m)" and d: "distinct (map fst m)"
    by (auto simp: a dom_map_of_conv_image_fst)
  have "map_of (add_meta data (a # m)) = map_of (AList.update k v data) ++ map_of m"
    by (simp add: a Cons.IH [OF d])
  also have "\<dots> = (map_of data)(k \<mapsto> v) ++ map_of m"
    by (simp only: update_conv')
  also have "\<dots> = (map_of data ++ map_of m)(k \<mapsto> v)"
    by (rule map_add_upd_left [OF k])
  also have "\<dots> = map_of data ++ (map_of m)(k \<mapsto> v)"
    by (rule map_add_upd [symmetric])
  also have "(map_of m)(k \<mapsto> v) = map_of (a # m)"
    by (simp only: a map_of.simps fst_conv snd_conv)
  finally show ?case .
qed

lemma distinct_add_meta:
  "distinct (map fst data) \<Longrightarrow> distinct (map fst (add_meta data m))"
  by (induction data m rule: add_meta.induct) (simp_all add: distinct_update)

lemma select_items_fail:
  "\<not> set ks \<subseteq> fst ` set p \<Longrightarrow> select_items p ks data = Inl KeyError"
proof (induction ks arbitrary: data)
  case Nil
  then show ?case by simp
next
  case (Cons k ks)
  show ?case
  proof (cases "map_of p k")
    case None
    then show ?thesis by (simp add: dict_item_def)
  next
    case (Some v)
    then have "k \<in> fst ` set p" by (force dest: map_of_SomeD)
    with Cons.prems have "\<not> set ks \<subseteq> fst ` set p" by simp
    from Cons.IH [OF this] Some show ?thesis by (simp add: dict_item_def)
  qed
qed

lemma select_items_ok:
  "set ks \<subseteq> fst ` set p \<Longrightarrow> distinct (map fst data) \<Longrightarrow>
     \<exists>d. select_items p ks data = Inr d \<and> distinct (map fst d)
          \<and> map_of d = map_of data ++ (map_of p |` set ks)"
proof (induction ks arbitrary: data)
  case Nil
  then show ?case by simp
next
  case (Cons k ks)
  from Cons.prems obtain v where v: "map_of p k = Some v"
    by (metis list.set_intros(1) map_of_eq_None_iff not_Some_eq subsetD)
  from Cons.prems have sub: "set ks \<subseteq> fst ` set p" by simp
  have dd: "distinct (map fst (AList.update k v data))"
    by (rule distinct_update [OF Cons.prems(2)])
  from Cons.IH [OF sub dd] obtain d where
    d: "select_items p ks (AList.update k v data) = Inr d" "distinct (map fst d)"
       "map_of d = map_of (AList.update k v data) ++ (map_of p |` set ks)"
    by blast
  have "map_of d = map_of data ++ (map_of p |` set (k # ks))"
  proof (rule ext)
    fix x
    show "map_of d x = (map_of data ++ (map_of p |` set (k # ks))) x"
      using v by (auto simp: d(3) update_conv' map_add_def restrict_map_def split: option.splits)
  qed
  with d v show ?case by (simp add: dict_item_def)
qed

lemma distinct_map_insort_key:
  "distinct (map f xs) \<Longrightarrow> f x \<notin> f ` set xs \<Longrightarrow> distinct (map f (insort_key f x xs))"
  by (induction xs) (auto simp: set_insort_key)

lemma distinct_map_sort_key:
  "distinct (map f xs) \<Longrightarrow> distinct (map f (sort_key f xs))"
  by (induction xs) (auto simp: sort_key_simps distinct_map_insort_key)

lemma alist_from_keys:
  "distinct (map fst xs) \<Longrightarrow> map (\<lambda>k. (k, the (map_of xs k))) (map fst xs) = xs"
proof (induction xs)
  case Nil
  show ?case by simp
next
  case (Cons a xs)
  obtain k v where a: "a = (k, v)" by (cases a)
  from Cons.prems have nk: "k \<notin> fst ` set xs" and d: "distinct (map fst xs)"
    by (auto simp: a)
  have "map (\<lambda>k'. (k', the (map_of (a # xs) k'))) (map fst xs)
        = map (\<lambda>k'. (k', the (map_of xs k'))) (map fst xs)"
    using nk by (intro map_cong) (auto simp: a)
  with Cons.IH [OF d] show ?case by (simp add: a)
qed

lemma sort_key_fst_eq:
  assumes "distinct (map fst xs)"
  shows "sort_key fst xs
         = map (\<lambda>k. (k, the (map_of xs k))) (sorted_list_of_set (dom (map_of xs)))"
proof -
  let ?L = "sort_key fst xs"
  have dL: "distinct (map fst ?L)" by (rule distinct_map_sort_key [OF assms])
  have sL: "sorted (map fst ?L)" by (rule sorted_sort_key)
  have setL: "set ?L = set xs" by simp
  have mL: "map_of ?L = map_of xs"
    using map_of_inject_set [OF dL assms] setL by simp
  have "set (map fst ?L) = dom (map_of xs)"
    by (simp add: dom_map_of_conv_image_fst)
  then have keys: "sorted_list_of_set (dom (map_of xs)) = map fst ?L"
    using sL dL by (metis sorted_list_of_set.idem_if_sorted_distinct)
  have "?L = map (\<lambda>k. (k, the (map_of ?L k))) (map fst ?L)"
    by (rule alist_from_keys [OF dL, symmetric])
  then show ?thesis by (simp only: keys mL)
qed

lemma canonical_of_sorted:
  assumes "distinct (map fst xs)"
  shows "concat (map canonical_item (sort_key fst xs)) = canonical_string (map_of xs)"
  by (simp add: sort_key_fst_eq [OF assms] canonical_string_def comp_def)

lemma sign_char:
  assumes dP: "distinct (map fst P)" and dM: "distinct (map fst M)"
  shows "sign L (PDict P) (PDict M) =
     (if dict_get M (ascii ''SignatureIndex'') PNone = PBool False then Inr PNone
      else if \<not> signed_keys (dict_get M (ascii ''SignatureIndex'') PNone) P \<subseteq> fst ` set P
      then Inl KeyError
      else Inr (PStr (md5_hexdigest L (canonical_string
             ((map_of P |` signed_keys (dict_get M (ascii ''SignatureIndex'') PNone) P)
               ++ map_of M)))))"
proof -
  let ?idx = "dict_get M (ascii ''SignatureIndex'') PNone"
  have fin: "sign L (PDict P) (PDict M)
             = Inr (PStr (md5_hexdigest L (canonical_string (map_of data ++ map_of M))))"
    if sel: "(if truthy ?idx \<and> is_str ?idx
              then select_items P (conversionComma ?idx) [] else Inr P) = Inr data"
      and dd: "distinct (map fst data)" and nf: "?idx \<noteq> PBool False" for data
  proof -
    have d: "distinct (map fst (add_meta data M))" by (rule distinct_add_meta [OF dd])
    have c: "canonicalize [] (sort_key fst (add_meta data M))
             = Inr (canonical_string (map_of data ++ map_of M))"
      by (simp add: canonicalize_eq canonical_of_sorted [OF d] map_of_add_meta [OF dM])
    have a: "list_all (\<lambda>c. c < 128) (canonical_string (map_of data ++ map_of M))"
      using canonical_items_ascii [of "sort_key fst (add_meta data M)"]
      by (simp add: canonical_of_sorted [OF d] map_of_add_meta [OF dM])
    show ?thesis
      using nf sel c
      by (cases "truthy ?idx \<and> is_str ?idx") (auto simp: sign_def Let_def md5_ascii [OF a])
  qed
  show ?thesis
  proof (cases "?idx = PBool False")
    case True
    then show ?thesis by (simp add: sign_def Let_def)
  next
    case nf: False
    show ?thesis
    proof (cases "truthy ?idx \<and> is_str ?idx")
      case False
      then have sk: "signed_keys ?idx P = fst ` set P" by (auto simp: signed_keys_def)
      have r: "map_of P |` (fst ` set P) = map_of P"
        by (rule ext) (auto simp: restrict_map_def map_of_eq_None_iff [symmetric])
      from False have "(if truthy ?idx \<and> is_str ?idx
              then select_items P (conversionComma ?idx) [] else Inr P) = Inr P" by auto
      from fin [OF this dP nf] nf show ?thesis by (simp add: sk r)
    next
      case True
      then have sk: "signed_keys ?idx P = set (conversionComma ?idx)"
        by (simp add: signed_keys_def)
      show ?thesis
      proof (cases "set (conversionComma ?idx) \<subseteq> fst ` set P")
        case False
        from select_items_fail [OF this] True nf False show ?thesis
          by (simp add: sign_def Let_def sk)
      next
        case sub: True
        from select_items_ok [OF sub, of "[]"] obtain d where
          d: "select_items P (conversionComma ?idx) [] = Inr d" "distinct (map fst d)"
             "map_of d = map_of [] ++ (map_of P |` set (conversionComma ?idx))"
          by auto
        from True d(1) have "(if truthy ?idx \<and> is_str ?idx
              then select_items P (conversionComma ?idx) [] else Inr P) = Inr d" by simp
        from fin [OF this d(2) nf] nf sub show ?thesis by (simp add: sk d(3))
      qed
    qed
  qed
qed


subsection \<open>Sealing and opening a payload\<close>

lemma filter_PADDING:
  assumes "printable t"
  shows "filter (\<lambda>c. \<not> illegal_char c) (PADDING t) = t"
proof -
  have a: "filter (\<lambda>c. \<not> illegal_char c) t = t"
    using assms by (induction t) (auto simp: illegal_char_iff)
  have "16 - length t mod 16 < 32" by simp
  then have b: "filter (\<lambda>c. \<not> illegal_char c)
                  (replicate (16 - length t mod 16) (16 - length t mod 16)) = []"
    by (simp add: illegal_char_iff)
  show ?thesis unfolding PADDING_def filter_append a b by simp
qed

lemma PADDING_nonempty: "PADDING t \<noteq> []"
proof -
  have "0 < 16 - length t mod 16" by simp
  then show ?thesis unfolding PADDING_def by (metis Nil_is_append_conv replicate_empty less_numeral_extra(3))
qed

lemma AES_round_trip:
  assumes b: "b64_ok L" and a: "aes_ok L"
    and k: "key \<noteq> []" "length key mod 16 = 0" "utf8_encode key = Some kb" "aes_key_ok kb"
    and t: "t \<noteq> []" "printable t"
  shows "\<exists>ct. AESEncrypt L (PStr key) (PStr t) = Inr (PStr ct)
              \<and> AESDecrypt L (PStr key) (PStr ct) = Inr (PStr t)"
proof -
  let ?e = "aes_cbc_encrypt L kb (take 16 kb) (PADDING t)"
  let ?ct = "b64encode L ?e"
  have enc: "AESEncrypt L (PStr key) (PStr t) = Inr (PStr ?ct)"
    by (rule AESEncrypt_printable [OF k t])
  have le: "length ?e = length (PADDING t)" and de: "aes_cbc_decrypt L kb (take 16 kb) ?e = PADDING t"
    using a by (simp_all add: aes_ok_def)
  from le PADDING_nonempty [of t] have ne: "?e \<noteq> []" by auto
  have b1: "b64decode L ?ct = Some ?e" and b2: "length ?ct mod 4 = 0" and b3: "?ct \<noteq> []"
    using b ne by (simp_all add: b64_ok_def)
  have l16: "length ?e mod 16 = 0" by (simp add: le PADDING_length)
  have u: "utf8_decode (PADDING t) = Some (PADDING t)"
    by (rule utf8_decode_ascii [OF PADDING_ascii [OF printable_ascii [OF t(2)]]])
  have "AESDecrypt L (PStr key) (PStr ?ct) = Inr (PStr t)"
    using k b3 by (simp add: AESDecrypt_def b2 b1 l16 de u filter_PADDING [OF t(2)])
  with enc show ?thesis by blast
qed

lemma md5_key:
  assumes "md5_ok L"
  shows "genAesKey L rnd \<noteq> [] \<and> length (genAesKey L rnd) = 32
         \<and> utf8_encode (genAesKey L rnd) = Some (genAesKey L rnd)
         \<and> utf8_decode (genAesKey L rnd) = Some (genAesKey L rnd)
         \<and> aes_key_ok (genAesKey L rnd)"
proof -
  let ?k = "md5_hexdigest L rnd"
  from assms have l: "length ?k = 32" and c: "list_all (\<lambda>c. 48 \<le> c \<and> c < 128) ?k"
    by (simp_all add: md5_ok_def)
  from c have a: "list_all (\<lambda>c. c < 128) ?k"
    by (rule list.pred_mono_strong) simp
  from l have "?k \<noteq> []" by auto
  then show ?thesis
    by (simp add: genAesKey_def l utf8_encode_ascii [OF a] utf8_decode_ascii [OF a] aes_key_ok_def)
qed

lemma RSA_round_trip:
  assumes v: "valid_keypair L pub priv" and b: "b64_ok L"
    and k: "utf8_encode key = Some key" "utf8_decode key = Some key" "length key \<le> 32"
  shows "\<exists>rk. RSAEncrypt L pub key rnd = Inr rk \<and> RSADecrypt L priv (PStr rk) = Inr key"
proof -
  from v obtain pk sk where
    pk: "load_public L pub = Some pk" and sk: "load_pkcs1_private L priv = Some sk"
    and r: "\<forall>m rnd. length m \<le> 32 \<longrightarrow>
              (\<exists>c. rsa_encrypt L m pk rnd = Some c \<and> rsa_decrypt L c sk = Some m)"
    unfolding valid_keypair_def by blast
  from r k(3) obtain c where c: "rsa_encrypt L key pk rnd = Some c" "rsa_decrypt L c sk = Some key"
    by blast
  have e: "RSAEncrypt L pub key rnd = Inr (b64encode L c)"
    using pk by (simp add: RSAEncrypt_def load_public_def k(1) c(1))
  have "b64decode L (b64encode L c) = Some c" using b by (simp add: b64_ok_def)
  then have "RSADecrypt L priv (PStr (b64encode L c)) = Inr key"
    by (simp add: RSADecrypt_def sk c(2) k(2))
  with e show ?thesis by blast
qed

lemma new_meta_facts:
  "distinct (map fst (new_meta ts idx))"
  "dict_get (new_meta ts idx) (ascii ''SignatureIndex'') PNone = idx"
  "ascii ''Signature'' \<notin> fst ` set (new_meta ts idx)"
  by (simp_all add: new_meta_def dict_get_def ascii_def)

lemma with_meta_all_ok:
  assumes "distinct (map fst data)"
  shows "\<exists>d. with_meta L ts data PNone = Inr (PDict d)"
  by (simp add: with_meta_def sign_char [OF assms new_meta_facts(1)] new_meta_facts(2)
        signed_keys_def)

lemma delete_absent: "k \<notin> fst ` set al \<Longrightarrow> AList.delete k al = al"
  by (induction al) (auto simp: AList.delete_eq)

lemma delete_update_absent: "k \<notin> fst ` set al \<Longrightarrow> AList.delete k (AList.update k v al) = al"
  by (simp add: delete_update_same delete_absent)

lemma verify_with_meta:
  assumes w: "with_meta L ts data idx = Inr d"
    and m: "ascii ''__meta__'' \<notin> fst ` set data"
    and j: "loads_inverts L d"
  shows "verify L (PStr (json_dumps_compact d)) = Inr (PDict data)"
proof -
  from w obtain sg where
    sg: "sign L (PDict data) (PDict (new_meta ts idx)) = Inr sg"
    and d: "d = PDict (AList.update (ascii ''__meta__'')
                 (PDict (AList.update (ascii ''Signature'') sg (new_meta ts idx))) data)"
    by (auto simp: with_meta_def split: sum.splits)
  let ?mv = "PDict (AList.update (ascii ''Signature'') sg (new_meta ts idx))"
  have l: "loads L (PStr (json_dumps_compact d)) = Inr d"
    using j by (simp add: loads_inverts_def)
  have p1: "obj_pop d (ascii ''__meta__'') = Inr (?mv, data)"
    unfolding d by (simp add: dict_pop_def update_conv' delete_update_absent [OF m])
  have p2: "obj_pop ?mv (ascii ''Signature'') = Inr (sg, new_meta ts idx)"
    by (simp add: dict_pop_def update_conv' delete_update_absent [OF new_meta_facts(3)])
  show ?thesis
    by (simp add: verify_def l p1 p2 sg del: loads.simps obj_pop.simps)
qed

lemma verify_no_meta:
  assumes "verify L plain = Inr x"
  shows "\<exists>data. x = PDict data \<and> ascii ''__meta__'' \<notin> fst ` set data"
proof -
  from assms obtain doc md data where
    "obj_pop doc (ascii ''__meta__'') = Inr (md, data)" and x: "x = PDict data"
    by (auto simp: verify_def split: sum.splits prod.splits if_splits)
  then obtain dd where "doc = PDict dd" "data = AList.delete (ascii ''__meta__'') dd"
    by (cases doc) (auto simp: dict_pop_def split: option.splits)
  then have "ascii ''__meta__'' \<notin> fst ` set data"
    by (auto simp: AList.delete_eq)
  with x show ?thesis by blast
qed

lemma seal_open:
  assumes b: "b64_ok L" and a: "aes_ok L" and m: "md5_ok L"
    and d: "distinct (map fst data)" and nm: "ascii ''__meta__'' \<notin> fst ` set data"
    and j: "\<forall>d. with_meta L ts data PNone = Inr d \<longrightarrow> loads_inverts L d"
  shows "\<exists>doc ct. with_meta L ts data PNone = Inr doc
           \<and> AESEncrypt L (PStr (genAesKey L rnd0)) (PStr (json_dumps_compact doc)) = Inr (PStr ct)
           \<and> AESDecrypt L (PStr (genAesKey L rnd0)) (PStr ct) = Inr (PStr (json_dumps_compact doc))
           \<and> verify L (PStr (json_dumps_compact doc)) = Inr (PDict data)"
proof -
  from with_meta_all_ok [OF d] obtain dd where w: "with_meta L ts data PNone = Inr (PDict dd)"
    by blast
  from md5_key [OF m, of rnd0] have k:
    "genAesKey L rnd0 \<noteq> []" "length (genAesKey L rnd0) mod 16 = 0"
    "utf8_encode (genAesKey L rnd0) = Some (genAesKey L rnd0)" "aes_key_ok (genAesKey L rnd0)"
    by simp_all
  from AES_round_trip [OF b a k json_dumps_compact_dict_nonempty printable_json_dumps_compact]
  obtain ct where
    ct: "AESEncrypt L (PStr (genAesKey L rnd0)) (PStr (json_dumps_compact (PDict dd))) = Inr (PStr ct)"
        "AESDecrypt L (PStr (genAesKey L rnd0)) (PStr ct) = Inr (PStr (json_dumps_compact (PDict dd)))"
    by blast
  from j w have "loads_inverts L (PDict dd)" by blast
  from verify_with_meta [OF w nm this] w ct show ?thesis by blast
qed

lemma exchange_request:
  assumes b: "b64_ok L" and a: "aes_ok L" and m: "md5_ok L" and v: "valid_keypair L pub priv"
    and P: "P \<noteq> []" "distinct (map fst P)" "ascii ''__meta__'' \<notin> fst ` set P"
    and j: "\<forall>d. with_meta L ts P PNone = Inr d \<longrightarrow> loads_inverts L d"
  shows "\<exists>rk ct.
      clientEncrypt L (client_init L rnd0 pub) ts rnd (PDict P) PNone
        = Inr (PDict [(ascii ''key'', PStr rk), (ascii ''value'', PStr ct)])
    \<and> serverDecrypt L (server_init priv) (PDict [(ascii ''key'', PStr rk), (ascii ''value'', PStr ct)])
        = (\<lparr>s_PrivateKey = priv, s_AESKey = PStr (genAesKey L rnd0)\<rparr>, Inr (PDict P))"
proof -
  let ?key = "genAesKey L rnd0"
  from md5_key [OF m, of rnd0] have k:
    "utf8_encode ?key = Some ?key" "utf8_decode ?key = Some ?key" "length ?key \<le> 32"
    by simp_all
  from RSA_round_trip [OF v b k] obtain rk where
    rk: "RSAEncrypt L pub ?key rnd = Inr rk" "RSADecrypt L priv (PStr rk) = Inr ?key"
    by blast
  from seal_open [OF b a m P(2) P(3) j, of rnd0] obtain doc ct where
    s: "with_meta L ts P PNone = Inr doc"
       "AESEncrypt L (PStr ?key) (PStr (json_dumps_compact doc)) = Inr (PStr ct)"
       "AESDecrypt L (PStr ?key) (PStr ct) = Inr (PStr (json_dumps_compact doc))"
       "verify L (PStr (json_dumps_compact doc)) = Inr (PDict P)"
    by blast
  have ne: "ascii ''key'' \<noteq> ascii ''value''" by (simp add: ascii_def)
  have e: "clientEncrypt L (client_init L rnd0 pub) ts rnd (PDict P) PNone
        = Inr (PDict [(ascii ''key'', PStr rk), (ascii ''value'', PStr ct)])"
    using P(1) by (simp add: clientEncrypt_def client_init_def rk(1) s(1) s(2))
  have "serverDecrypt L (server_init priv) (PDict [(ascii ''key'', PStr rk), (ascii ''value'', PStr ct)])
        = (\<lparr>s_PrivateKey = priv, s_AESKey = PStr ?key\<rparr>, Inr (PDict P))"
    using ne by (simp add: serverDecrypt_def server_init_def dict_get_def rk(2) s(3) s(4))
  with e show ?thesis by blast
qed

lemma exchange_response:
  assumes b: "b64_ok L" and a: "aes_ok L" and m: "md5_ok L"
    and R: "R \<noteq> []" "distinct (map fst R)" "ascii ''__meta__'' \<notin> fst ` set R"
    and j: "\<forall>d. with_meta L ts R PNone = Inr d \<longrightarrow> loads_inverts L d"
  shows "\<exists>ct.
      serverEncrypt L \<lparr>s_PrivateKey = priv, s_AESKey = PStr (genAesKey L rnd0)\<rparr> ts (PDict R) PNone
        = Inr (PDict [(ascii ''data'', PStr ct)])
    \<and> clientDecrypt L (client_init L rnd0 pub) (PDict [(ascii ''data'', PStr ct)]) = Inr (PDict R)"
proof -
  let ?key = "genAesKey L rnd0"
  from md5_key [OF m, of rnd0] have k: "?key \<noteq> []" by simp
  from seal_open [OF b a m R(2) R(3) j, of rnd0] obtain doc ct where
    s: "with_meta L ts R PNone = Inr doc"
       "AESEncrypt L (PStr ?key) (PStr (json_dumps_compact doc)) = Inr (PStr ct)"
       "AESDecrypt L (PStr ?key) (PStr ct) = Inr (PStr (json_dumps_compact doc))"
       "verify L (PStr (json_dumps_compact doc)) = Inr (PDict R)"
    by blast
  have e: "serverEncrypt L \<lparr>s_PrivateKey = priv, s_AESKey = PStr ?key\<rparr> ts (PDict R) PNone
        = Inr (PDict [(ascii ''data'', PStr ct)])"
    using R(1) k by (simp add: serverEncrypt_def s(1) s(2))
  have "clientDecrypt L (client_init L rnd0 pub) (PDict [(ascii ''data'', PStr ct)]) = Inr (PDict R)"
    by (simp add: clientDecrypt_def client_init_def dict_get_def s(3) s(4))
  with e show ?thesis by blast
qed

lemma serverDecrypt_no_meta:
  assumes "snd (serverDecrypt L s env) = Inr x"
  shows "\<exists>data. x = PDict data \<and> ascii ''__meta__'' \<notin> fst ` set data"
proof -
  obtain s' where "serverDecrypt L s env = (s', Inr x)"
    using assms by (cases "serverDecrypt L s env") simp
  from serverDecrypt_ok [OF this] obtain plain where "verify L plain = Inr x" by blast
  then show ?thesis by (rule verify_no_meta)
qed

lemma clientEncrypt_ok:
  assumes b: "b64_ok L" and m: "md5_ok L" and v: "valid_keypair L pub priv"
    and P: "P \<noteq> []" "distinct (map fst P)"
  shows "\<not> isl (clientEncrypt L (client_init L rnd0 pub) ts rnd (PDict P) PNone)"
proof -
  let ?key = "genAesKey L rnd0"
  from md5_key [OF m, of rnd0] have k:
    "utf8_encode ?key = Some ?key" "utf8_decode ?key = Some ?key" "length ?key \<le> 32"
    "?key \<noteq> []" "length ?key mod 16 = 0" "aes_key_ok ?key"
    by simp_all
  from RSA_round_trip [OF v b k(1) k(2) k(3)] obtain rk where
    rk: "RSAEncrypt L pub ?key rnd = Inr rk" by blast
  from with_meta_all_ok [OF P(2)] obtain dd where w: "with_meta L ts P PNone = Inr (PDict dd)"
    by blast
  have "AESEncrypt L (PStr ?key) (PStr (json_dumps_compact (PDict dd)))
        = Inr (PStr (b64encode L (aes_cbc_encrypt L ?key (take 16 ?key)
                 (PADDING (json_dumps_compact (PDict dd))))))"
    by (rule AESEncrypt_printable [OF k(4) k(5) k(1) k(6) json_dumps_compact_dict_nonempty
          printable_json_dumps_compact])
  then show ?thesis
    using P(1) by (simp add: clientEncrypt_def client_init_def rk w)
qed

lemma hex_lower_range: "48 \<le> hex_lower (x mod 16) \<and> hex_lower (x mod 16) < 128"
  by (simp add: hex_lower_def) presburger

lemma toy_md5_ok: "md5_ok (toy_lib docs)"
proof -
  have "list_all (\<lambda>c. 48 \<le> c \<and> c < 128)
          (take 32 (map (\<lambda>x. hex_lower (x mod 16)) b @ replicate 32 48))" for b :: bytes
    using hex_lower_range by (auto simp: list_all_iff dest!: in_set_takeD)
  then show ?thesis by (auto simp: md5_ok_def toy_lib_def min_def)
qed

lemma toy_valid_keypair: "valid_keypair (toy_lib docs) pub priv"
  by (simp add: valid_keypair_def load_public_def toy_lib_def)

subsection \<open>The run on the stand-in library\<close>

lemma sign_md5_only:
  assumes "md5_hexdigest L = md5_hexdigest L'"
  shows "sign L p m = sign L' p m"
proof -
  have e: "md5 L = md5 L'" unfolding md5_def assms ..
  show ?thesis unfolding sign_def e ..
qed

lemma with_meta_md5_only:
  "md5_hexdigest L = md5_hexdigest L' \<Longrightarrow> with_meta L ts d i = with_meta L' ts d i"
  unfolding with_meta_def sign_md5_only [of L L'] ..

lemma with_meta_toy: "with_meta (toy_lib docs) ts d i = with_meta (toy_lib []) ts d i"
  by (rule with_meta_md5_only) (simp add: toy_lib_def)

lemma with_meta_form:
  assumes "distinct (map fst data)"
  shows "\<exists>mv. with_meta L ts data PNone = Inr (PDict (AList.update (ascii ''__meta__'') mv data))"
  using with_meta_all_ok [OF assms, of L ts]
  by (auto simp: with_meta_def split: sum.splits)

lemma join_Cons: "\<exists>t. join sep (x # xs) = x @ t"
  by (cases xs) auto

lemma dumps_dict_head:
  assumes "32 \<le> c" "c \<le> 126" "c \<noteq> 34" "c \<noteq> 92"
  shows "take 3 (json_dumps_compact (PDict ((c # k, v) # rest))) = [123, 34, c]"
proof -
  have e: "json_escape_char c = [c]" using assms by (simp add: json_escape_char_def)
  obtain u where u: "json_string (c # k) = 34 # c # u"
    by (simp add: json_string_def e)
  let ?x = "json_string (c # k) @ ascii '':'' @ json_dumps False (ascii '','') (ascii '':'') v"
  let ?xs = "map (\<lambda>(k, m). json_string k @ ascii '':'' @ m)
                (map (\<lambda>(k, v). (k, json_dumps False (ascii '','') (ascii '':'') v)) rest)"
  obtain t where t: "join (ascii '','') (?x # ?xs) = ?x @ t" using join_Cons by blast
  have 1: "json_dumps_compact (PDict ((c # k, v) # rest))
           = 123 # join (ascii '','') (?x # ?xs) @ [125]"
    by (simp add: json_dumps_compact_def)
  have 2: "?x @ t = 34 # c # (u @ ascii '':'' @ json_dumps False (ascii '','') (ascii '':'') v @ t)"
    by (simp add: u)
  show ?thesis unfolding 1 t 2 by simp
qed

lemma demo_doc_P:
  "\<exists>mv. projr (with_meta (toy_lib []) demo_ts demo_P PNone)
         = PDict ((ascii ''action'', PStr (ascii ''login''))
                  # AList.update (ascii ''__meta__'') mv [(ascii ''user'', PStr (ascii ''alice''))])
        \<and> with_meta (toy_lib []) demo_ts demo_P PNone
           = Inr (projr (with_meta (toy_lib []) demo_ts demo_P PNone))"
proof -
  have "distinct (map fst demo_P)" by (simp add: demo_P_def ascii_def)
  from with_meta_form [OF this, of "toy_lib []" demo_ts] obtain mv where
    "with_meta (toy_lib []) demo_ts demo_P PNone
       = Inr (PDict (AList.update (ascii ''__meta__'') mv demo_P))" by blast
  moreover have "ascii ''action'' \<noteq> ascii ''__meta__''" by (simp add: ascii_def)
  ultimately show ?thesis by (auto simp: demo_P_def)
qed

lemma demo_doc_R:
  "\<exists>mv. projr (with_meta (toy_lib []) demo_ts demo_R PNone)
         = PDict ((ascii ''status'', PStr (ascii ''ok'')) # AList.update (ascii ''__meta__'') mv [])
        \<and> with_meta (toy_lib []) demo_ts demo_R PNone
           = Inr (projr (with_meta (toy_lib []) demo_ts demo_R PNone))"
proof -
  have "distinct (map fst demo_R)" by (simp add: demo_R_def ascii_def)
  from with_meta_form [OF this, of "toy_lib []" demo_ts] obtain mv where
    "with_meta (toy_lib []) demo_ts demo_R PNone
       = Inr (PDict (AList.update (ascii ''__meta__'') mv demo_R))" by blast
  moreover have "ascii ''status'' \<noteq> ascii ''__meta__''" by (simp add: ascii_def)
  ultimately show ?thesis by (auto simp: demo_R_def)
qed

lemma demo_heads:
  "take 3 (json_dumps_compact (projr (with_meta (toy_lib []) demo_ts demo_P PNone))) = [123, 34, 97]"
  "take 3 (json_dumps_compact (projr (with_meta (toy_lib []) demo_ts demo_R PNone))) = [123, 34, 115]"
  "take 3 (json_dumps_compact demo_forged) = [123, 34, 120]"
proof -
  from demo_doc_P obtain mv where
    "projr (with_meta (toy_lib []) demo_ts demo_P PNone)
         = PDict ((97 # ascii ''ction'', PStr (ascii ''login''))
                  # AList.update (ascii ''__meta__'') mv [(ascii ''user'', PStr (ascii ''alice''))])"
    by (auto simp: ascii_def)
  then show "take 3 (json_dumps_compact (projr (with_meta (toy_lib []) demo_ts demo_P PNone)))
             = [123, 34, 97]"
    by (simp add: dumps_dict_head)
next
  from demo_doc_R obtain mv where
    "projr (with_meta (toy_lib []) demo_ts demo_R PNone)
         = PDict ((115 # ascii ''tatus'', PStr (ascii ''ok'')) # AList.update (ascii ''__meta__'') mv [])"
    by (auto simp: ascii_def)
  then show "take 3 (json_dumps_compact (projr (with_meta (toy_lib []) demo_ts demo_R PNone)))
             = [123, 34, 115]"
    by (simp add: dumps_dict_head)
next
  have x: "ascii ''x'' = [120]" by (simp add: ascii_def)
  show "take 3 (json_dumps_compact demo_forged) = [123, 34, 120]"
    unfolding demo_forged_def x by (rule dumps_dict_head) simp_all
qed

lemma demo_dumps_distinct:
  "json_dumps_compact (projr (with_meta (toy_lib []) demo_ts demo_P PNone))
     \<noteq> json_dumps_compact (projr (with_meta (toy_lib []) demo_ts demo_R PNone))"
  "json_dumps_compact (projr (with_meta (toy_lib []) demo_ts demo_P PNone))
     \<noteq> json_dumps_compact demo_forged"
  "json_dumps_compact (projr (with_meta (toy_lib []) demo_ts demo_R PNone))
     \<noteq> json_dumps_compact demo_forged"
  using demo_heads by (metis list.inject numeral_eq_iff semiring_norm(88) semiring_norm(89) semiring_norm(90))+

lemma toy_json_loads:
  "json_loads (toy_lib docs) s = map_of (map (\<lambda>d. (json_dumps_compact d, d)) docs) s"
  by (simp add: toy_lib_def)

lemma demo_loads:
  "loads_inverts demo_lib (projr (with_meta (toy_lib []) demo_ts demo_P PNone))"
  "loads_inverts demo_lib (projr (with_meta (toy_lib []) demo_ts demo_R PNone))"
  "loads_inverts demo_lib demo_forged"
  using demo_dumps_distinct
  by (simp_all add: loads_inverts_def demo_lib_def toy_json_loads demo_docs_def)

lemma demo_lib_ok:
  "b64_ok demo_lib" "aes_ok demo_lib" "md5_ok demo_lib" "valid_keypair demo_lib pub priv"
  unfolding demo_lib_def
  by (rule toy_b64_ok toy_aes_ok toy_md5_ok toy_valid_keypair)+

lemma demo_with_meta:
  "\<forall>d. with_meta demo_lib demo_ts demo_P PNone = Inr d \<longrightarrow> loads_inverts demo_lib d"
  "\<forall>d. with_meta demo_lib demo_ts demo_R PNone = Inr d \<longrightarrow> loads_inverts demo_lib d"
  "with_meta demo_lib demo_ts demo_R PNone
     = Inr (projr (with_meta (toy_lib []) demo_ts demo_R PNone))"
proof -
  from demo_doc_P have p: "with_meta (toy_lib []) demo_ts demo_P PNone
           = Inr (projr (with_meta (toy_lib []) demo_ts demo_P PNone))" by blast
  from demo_doc_R have r: "with_meta (toy_lib []) demo_ts demo_R PNone
           = Inr (projr (with_meta (toy_lib []) demo_ts demo_R PNone))" by blast
  have wp: "with_meta demo_lib demo_ts demo_P PNone
           = Inr (projr (with_meta (toy_lib []) demo_ts demo_P PNone))"
    unfolding demo_lib_def with_meta_toy [of demo_docs] by (rule p)
  show wr: "with_meta demo_lib demo_ts demo_R PNone
           = Inr (projr (with_meta (toy_lib []) demo_ts demo_R PNone))"
    unfolding demo_lib_def with_meta_toy [of demo_docs] by (rule r)
  show "\<forall>d. with_meta demo_lib demo_ts demo_P PNone = Inr d \<longrightarrow> loads_inverts demo_lib d"
    unfolding wp using demo_loads(1) by simp
  show "\<forall>d. with_meta demo_lib demo_ts demo_R PNone = Inr d \<longrightarrow> loads_inverts demo_lib d"
    unfolding wr using demo_loads(2) by simp
qed

lemma demo_payloads:
  "demo_P \<noteq> []" "distinct (map fst demo_P)" "ascii ''__meta__'' \<notin> fst ` set demo_P"
  "demo_R \<noteq> []" "distinct (map fst demo_R)" "ascii ''__meta__'' \<notin> fst ` set demo_R"
  by (simp_all add: demo_P_def demo_R_def ascii_def)

lemma demo_key:
  "c_AESKey demo_client = genAesKey demo_lib []"
  "genAesKey demo_lib [] \<noteq> []" "length (genAesKey demo_lib []) mod 16 = 0"
  "utf8_encode (genAesKey demo_lib []) = Some (genAesKey demo_lib [])"
  "aes_key_ok (genAesKey demo_lib [])"
  "utf8_decode (genAesKey demo_lib []) = Some (genAesKey demo_lib [])"
  "length (genAesKey demo_lib []) \<le> 32"
  using md5_key [OF demo_lib_ok(3), of "[]"]
  by (simp_all add: demo_client_def client_init_def)

section \<open>The percent-encoding of an item\<close>

text \<open>
  C3, as stated, fails on the character \<^verbatim>\<open>+\<close>: \<^verbatim>\<open>quote\<close> with an empty safe set
  writes it as \<^verbatim>\<open>%2B\<close>, and the replacement of \<^verbatim>\<open>+\<close> by \<^verbatim>\<open>%20\<close> runs on the quoted
  text, where no \<^verbatim>\<open>+\<close> is left.
\<close>

theorem percent_encode_plus_counterexample:
  "percent_encode (PStr (ascii ''1+1'')) = Inr (ascii ''%221%2B1%22'')
   \<and> spec_item_encoding (PStr (ascii ''1+1'')) = ascii ''%221%201%22''
   \<and> percent_encode (PStr (ascii ''1+1'')) \<noteq> Inr (spec_item_encoding (PStr (ascii ''1+1'')))"
  by (simp add: percent_encode_eq item_encoding_def spec_item_encoding_def spec_escape_def
        json_dumps_sorted_def json_string_def json_escape_char_def quote_def quote_byte_def
        always_safe_def hex_upper_def ascii_def)

text \<open>
  C3, amended. The encoded form of an item is its JSON text with recursively sorted keys,
  percent-encoded octet by octet with only letters, digits and \<^verbatim>\<open>_.-~\<close> kept: \<^verbatim>\<open>*\<close>
  becomes \<^verbatim>\<open>%2A\<close>, \<^verbatim>\<open>~\<close> stays, a space becomes \<^verbatim>\<open>%20\<close> and \<^verbatim>\<open>+\<close> becomes
  \<^verbatim>\<open>%2B\<close>. The three replacements of the source change nothing. In the signing string
  the key goes through the same encoding as the value.
\<close>

theorem percent_encode_scheme:
  "percent_encode v = Inr (quote (json_dumps_sorted v))
   \<and> quote (ascii ''*'') = ascii ''%2A''
   \<and> quote (ascii ''~'') = ascii ''~''
   \<and> quote (ascii '' '') = ascii ''%20''
   \<and> quote (ascii ''+'') = ascii ''%2B''
   \<and> canonicalize acc [(k, v)] =
       Inr (acc @ quote (json_dumps_sorted (PStr k)) @ ascii ''=''
                @ quote (json_dumps_sorted v) @ ascii ''&'')"
  by (simp add: percent_encode_eq item_encoding_def quote_def quote_byte_def always_safe_def
        hex_upper_def ascii_def)

theorem percent_encode_scheme_witness:
  "percent_encode (PDict [(ascii ''b'', PStr (ascii ''x*~ +'')), (ascii ''a'', PInt (- 7))])
     = Inr (ascii ''%7B%22a%22%3A%20-7%2C%20%22b%22%3A%20%22x%2A~%20%2B%22%7D'')"
  using percent_encode_scheme
          [of "PDict [(ascii ''b'', PStr (ascii ''x*~ +'')), (ascii ''a'', PInt (- 7))]"]
  by (simp add: json_dumps_sorted_def json_string_def json_escape_char_def quote_def
        quote_byte_def always_safe_def hex_upper_def ascii_def show_int_def show_nat.simps)

section \<open>The AES adapters reject bad parameters\<close>

text \<open>
  C7. A key that is not text, a key whose length is not a positive multiple of 16, or a
  second argument that is not text makes both \<^verbatim>\<open>AESEncrypt\<close> and \<^verbatim>\<open>AESDecrypt\<close> raise
  \<^verbatim>\<open>AESError\<close>, whatever the cipher library is: no library call is reached.
\<close>

theorem aes_rejects_bad_parameters:
  assumes "\<not> is_str key \<or> \<not> is_str txt
           \<or> \<not> (0 < length (str_of key) \<and> length (str_of key) mod 16 = 0)"
  shows "AESEncrypt L key txt = Inl AESError \<and> AESDecrypt L key txt = Inl AESError"
proof -
  have "\<not> (truthy key \<and> is_str key \<and> length (str_of key) mod 16 = 0 \<and> is_str txt)"
    using assms by (cases key) auto
  then show ?thesis
    by (auto simp: AESEncrypt_def AESDecrypt_def)
qed

theorem aes_rejects_bad_parameters_witness:
  "AESEncrypt (toy_lib []) (PStr (ascii ''0123456789abcde'')) (PStr (ascii ''hello''))
     = Inl AESError
   \<and> AESDecrypt (toy_lib []) (PStr (ascii ''0123456789abcde'')) (PStr (ascii ''hello''))
     = Inl AESError
   \<and> AESEncrypt (toy_lib []) (PInt 16) (PStr (ascii ''hello'')) = Inl AESError
   \<and> AESDecrypt (toy_lib []) (PStr toy_key) PNone = Inl AESError"
  using aes_rejects_bad_parameters
          [of "PStr (ascii ''0123456789abcde'')" "PStr (ascii ''hello'')" "toy_lib []"]
    aes_rejects_bad_parameters [of "PInt 16" "PStr (ascii ''hello'')" "toy_lib []"]
    aes_rejects_bad_parameters [of "PStr toy_key" PNone "toy_lib []"]
  by (simp add: ascii_def)


section \<open>Decryption that does not yield text\<close>

text \<open>
  C6. For a key that passes the guard and that \<^verbatim>\<open>AES.new\<close> accepts and a cipher text
  that decodes to whole blocks: when the decrypted octets are not valid UTF-8,
  \<^verbatim>\<open>AESDecrypt\<close> returns \<^verbatim>\<open>False\<close>, a falsy value, and does not raise; when they are,
  it returns the decoded text without its control characters, which are the code points
  below 32.
\<close>

theorem aes_decrypt_sentinel:
  assumes "key \<noteq> []" and "length key mod 16 = 0"
    and "utf8_encode key = Some kb" and "aes_key_ok kb"
    and "ct \<noteq> []"
    and "b64decode L (ct @ replicate (length ct mod 4) 61) = Some db"
    and "length db mod 16 = 0"
  shows "(utf8_decode (aes_cbc_decrypt L kb (take 16 kb) db) = None \<longrightarrow>
            AESDecrypt L (PStr key) (PStr ct) = Inr (PBool False) \<and> \<not> truthy (PBool False))
       \<and> (\<forall>t. utf8_decode (aes_cbc_decrypt L kb (take 16 kb) db) = Some t \<longrightarrow>
            AESDecrypt L (PStr key) (PStr ct) = Inr (PStr (filter (\<lambda>c. 32 \<le> c) t)))"
proof -
  have f: "(\<lambda>c. \<not> illegal_char c) = (\<lambda>c. 32 \<le> c)"
    by (auto simp: illegal_char_iff)
  show ?thesis
    using assms by (simp add: AESDecrypt_def f)
qed

theorem aes_decrypt_sentinel_witness:
  "AESDecrypt (toy_lib []) (PStr toy_key) (PStr (b64encode (toy_lib []) ff16))
     = Inr (PBool False)
   \<and> \<not> truthy (PBool False)
   \<and> AESDecrypt (toy_lib []) (PStr toy_key) (PStr (b64encode (toy_lib []) (rev two_lines)))
     = Inr (PStr (ascii ''line1line2''))"
proof -
  let ?L = "toy_lib []"
  let ?c1 = "b64encode ?L ff16"
  let ?c2 = "b64encode ?L (rev two_lines)"
  have k: "toy_key \<noteq> []" "length toy_key mod 16 = 0" "utf8_encode toy_key = Some toy_key"
    "aes_key_ok toy_key"
    by (simp_all add: toy_key_def ascii_def utf8_char_def aes_key_ok_def)
  have b: "b64_ok ?L" by (rule toy_b64_ok)
  have n1: "ff16 \<noteq> []" and n2: "rev two_lines \<noteq> []"
    by (simp_all add: ff16_def two_lines_def)
  have c1: "?c1 \<noteq> []" "b64decode ?L (?c1 @ replicate (length ?c1 mod 4) 61) = Some ff16"
    using b n1 unfolding b64_ok_def by simp_all
  have c2: "?c2 \<noteq> []" "b64decode ?L (?c2 @ replicate (length ?c2 mod 4) 61) = Some (rev two_lines)"
    using b n2 unfolding b64_ok_def by simp_all
  have l1: "length ff16 mod 16 = 0" by (simp add: ff16_def)
  have l2: "length (rev two_lines) mod 16 = 0" by (simp add: two_lines_def ascii_def)
  have d1: "utf8_decode (aes_cbc_decrypt ?L toy_key (take 16 toy_key) ff16) = None"
    by (simp add: toy_lib_def ff16_def)
  have d2: "utf8_decode (aes_cbc_decrypt ?L toy_key (take 16 toy_key) (rev two_lines))
            = Some two_lines"
    by (simp add: toy_lib_def two_lines_def ascii_def)
  have f2: "filter (\<lambda>c. 32 \<le> c) two_lines = ascii ''line1line2''"
    by (simp add: two_lines_def ascii_def)
  from aes_decrypt_sentinel [OF k(1) k(2) k(3) k(4) c1(1) c1(2) l1] d1
  have r1: "AESDecrypt ?L (PStr toy_key) (PStr ?c1) = Inr (PBool False)" by simp
  from aes_decrypt_sentinel [OF k(1) k(2) k(3) k(4) c2(1) c2(2) l2] d2 f2
  have r2: "AESDecrypt ?L (PStr toy_key) (PStr ?c2) = Inr (PStr (ascii ''line1line2''))" by simp
  show ?thesis using r1 r2 by simp
qed

section \<open>Empty payloads\<close>

text \<open>
  C10, as stated, fails on a server that has no key yet: the test of \<^verbatim>\<open>self.AESKey\<close>
  comes first, and the empty dict gets \<^verbatim>\<open>ValueError\<close>, not \<^verbatim>\<open>TypeError\<close>.
\<close>

theorem empty_payload_without_key_counterexample:
  "serverEncrypt (toy_lib []) (server_init []) (ascii ''2019-01-01T00:00:00Z'') (PDict []) PNone
     = Inl ValueError
   \<and> serverEncrypt (toy_lib []) (server_init []) (ascii ''2019-01-01T00:00:00Z'') (PDict []) PNone
     \<noteq> Inl TypeError"
  by (simp add: serverEncrypt_def server_init_def)

text \<open>
  C10, amended. \<^verbatim>\<open>clientEncrypt\<close> raises \<^verbatim>\<open>TypeError\<close> for the empty dict as it does for
  an argument that is not a dict. \<^verbatim>\<open>serverEncrypt\<close> does the same once an AES key is
  stored; without one it raises \<^verbatim>\<open>ValueError\<close> for every argument, the empty dict
  included.
\<close>

theorem empty_payload_rejected:
  "clientEncrypt L c ts rnd (PDict []) signIndex = Inl TypeError
   \<and> (\<not> is_dict x \<longrightarrow> clientEncrypt L c ts rnd x signIndex = Inl TypeError)
   \<and> (truthy (s_AESKey s) \<longrightarrow>
        serverEncrypt L s ts (PDict []) signIndex = Inl TypeError
        \<and> (\<not> is_dict x \<longrightarrow> serverEncrypt L s ts x signIndex = Inl TypeError))
   \<and> (\<not> truthy (s_AESKey s) \<longrightarrow>
        serverEncrypt L s ts (PDict []) signIndex = Inl ValueError
        \<and> serverEncrypt L s ts x signIndex = Inl ValueError)"
  by (simp add: clientEncrypt_def serverEncrypt_def)

theorem empty_payload_rejected_witness:
  "clientEncrypt (toy_lib []) (client_init (toy_lib []) [] []) [] [] (PDict []) PNone
     = Inl TypeError
   \<and> clientEncrypt (toy_lib []) (client_init (toy_lib []) [] []) [] [] (PInt 3) PNone
     = Inl TypeError
   \<and> truthy (s_AESKey \<lparr>s_PrivateKey = [], s_AESKey = PStr toy_key\<rparr>)
   \<and> serverEncrypt (toy_lib []) \<lparr>s_PrivateKey = [], s_AESKey = PStr toy_key\<rparr> [] (PDict []) PNone
     = Inl TypeError
   \<and> serverEncrypt (toy_lib []) \<lparr>s_PrivateKey = [], s_AESKey = PStr toy_key\<rparr> [] (PInt 3) PNone
     = Inl TypeError"
  using empty_payload_rejected [of "toy_lib []" "client_init (toy_lib []) [] []" "[]" "[]" PNone
          "PInt 3" "\<lparr>s_PrivateKey = [], s_AESKey = PStr toy_key\<rparr>"]
  by (simp add: toy_key_def ascii_def)

section \<open>The server's key slot\<close>

text \<open>
  C9. On a new server \<^verbatim>\<open>serverEncrypt\<close> raises \<^verbatim>\<open>ValueError\<close> for every payload.
  After a \<^verbatim>\<open>serverDecrypt\<close> that returned a payload, the slot holds the key recovered
  by \<^verbatim>\<open>RSADecrypt\<close>, and for every non-empty dict that can be signed
  \<^verbatim>\<open>serverEncrypt\<close> returns the dict with the single member \<^verbatim>\<open>data\<close>: the padded
  JSON text encrypted under that key, with the key's first 16 octets as IV. No RSA
  operation takes part in the result.
\<close>

theorem server_encrypt_needs_key:
  "serverEncrypt L (server_init PrivateKey) ts resp signIndex = Inl ValueError
   \<and> (serverDecrypt L s env = (s', Inr p) \<longrightarrow>
        (\<exists>k kb. s_AESKey s' = PStr k
           \<and> RSADecrypt L (s_PrivateKey s) (dict_get (dict_of env) (ascii ''key'') PNone) = Inr k
           \<and> utf8_encode k = Some kb
           \<and> (\<forall>ts resp signIndex respData.
                 truthy resp \<and> is_dict resp
                 \<and> with_meta L ts (dict_of resp) signIndex = Inr respData \<longrightarrow>
                 serverEncrypt L s' ts resp signIndex =
                   Inr (PDict [(ascii ''data'',
                     PStr (b64encode L (aes_cbc_encrypt L kb (take 16 kb)
                            (PADDING (json_dumps_compact respData)))))]))))"
proof (intro conjI impI)
  show "serverEncrypt L (server_init PrivateKey) ts resp signIndex = Inl ValueError"
    by (simp add: serverEncrypt_def server_init_def)
next
  assume "serverDecrypt L s env = (s', Inr p)"
  from serverDecrypt_ok [OF this] obtain k plain where
    r: "RSADecrypt L (s_PrivateKey s) (dict_get (dict_of env) (ascii ''key'') PNone) = Inr k"
    and s': "s' = s\<lparr>s_AESKey := PStr k\<rparr>"
    and a: "AESDecrypt L (PStr k) (dict_get (dict_of env) (ascii ''value'') PNone) = Inr plain"
    by blast
  from AESDecrypt_key [OF a] obtain kb where
    k: "k \<noteq> []" "length k mod 16 = 0" "utf8_encode k = Some kb" "aes_key_ok kb"
    by auto
  have enc: "serverEncrypt L s' ts resp signIndex =
       Inr (PDict [(ascii ''data'',
             PStr (b64encode L (aes_cbc_encrypt L kb (take 16 kb)
                    (PADDING (json_dumps_compact respData)))))])"
    if t: "truthy resp" "is_dict resp" and w: "with_meta L ts (dict_of resp) signIndex = Inr respData"
    for ts resp signIndex respData
  proof -
    from with_meta_is_dict [OF w] obtain dd where dd: "respData = PDict dd" by blast
    have "AESEncrypt L (PStr k) (PStr (json_dumps_compact respData))
          = Inr (PStr (b64encode L (aes_cbc_encrypt L kb (take 16 kb)
                    (PADDING (json_dumps_compact respData)))))"
      by (rule AESEncrypt_printable [OF k])
         (simp_all add: dd json_dumps_compact_dict_nonempty printable_json_dumps_compact)
    then show ?thesis
      using t w k(1) by (simp add: serverEncrypt_def s')
  qed
  show "\<exists>k kb. s_AESKey s' = PStr k
           \<and> RSADecrypt L (s_PrivateKey s) (dict_get (dict_of env) (ascii ''key'') PNone) = Inr k
           \<and> utf8_encode k = Some kb
           \<and> (\<forall>ts resp signIndex respData.
                 truthy resp \<and> is_dict resp
                 \<and> with_meta L ts (dict_of resp) signIndex = Inr respData \<longrightarrow>
                 serverEncrypt L s' ts resp signIndex =
                   Inr (PDict [(ascii ''data'',
                     PStr (b64encode L (aes_cbc_encrypt L kb (take 16 kb)
                            (PADDING (json_dumps_compact respData)))))]))"
    using r s' k(3) enc by (intro exI [of _ k] exI [of _ kb]) simp
qed

section \<open>The signature\<close>

text \<open>
  C2, as stated, fails when \<^verbatim>\<open>SignatureIndex\<close> lists a key that the payload does not
  have: signing is not skipped, the loop \<^verbatim>\<open>data[k] = parameters[k]\<close> raises
  \<^verbatim>\<open>KeyError\<close>, and no digest is returned.
\<close>

theorem sign_missing_key_counterexample:
  "dict_get [(ascii ''SignatureIndex'', PStr (ascii ''a''))] (ascii ''SignatureIndex'') PNone
     \<noteq> PBool False
   \<and> sign (toy_lib []) (PDict [(ascii ''b'', PInt 2)])
          (PDict [(ascii ''SignatureIndex'', PStr (ascii ''a''))]) = Inl KeyError"
proof -
  have c: "conversionComma (PStr (ascii ''a'')) = [ascii ''a'']"
    by (simp add: conversionComma_def re_split_comma.simps ascii_def)
  have k: "dict_item [(ascii ''b'', PInt 2)] (ascii ''a'') = Inl KeyError"
    by (simp add: dict_item_def ascii_def)
  have g: "dict_get [(ascii ''SignatureIndex'', PStr (ascii ''a''))] (ascii ''SignatureIndex'') PNone
           = PStr (ascii ''a'')"
    by (simp add: dict_get_def)
  have n: "ascii ''a'' \<noteq> []" by (simp add: ascii_def)
  show ?thesis
    by (simp add: sign_def Let_def g n c k)
qed

text \<open>
  C2, amended. For a payload dict \<^verbatim>\<open>P\<close> and a metadata dict \<^verbatim>\<open>M\<close> whose
  \<^verbatim>\<open>SignatureIndex\<close> is not \<^verbatim>\<open>False\<close> and names only keys of \<^verbatim>\<open>P\<close>, \<^verbatim>\<open>sign\<close>
  returns the digest of the signing string of the merged mapping: the selected part of
  \<^verbatim>\<open>P\<close> overridden by \<^verbatim>\<open>M\<close>, its pairs taken in ascending key order, each written as
  encoded key, \<^verbatim>\<open>=\<close>, encoded value, \<^verbatim>\<open>&\<close>, the last pair included. The string is
  plain ASCII, so its octets are its code points.
\<close>

theorem sign_canonical_string:
  assumes "distinct (map fst P)" and "distinct (map fst M)"
    and "dict_get M (ascii ''SignatureIndex'') PNone \<noteq> PBool False"
    and "signed_keys (dict_get M (ascii ''SignatureIndex'') PNone) P \<subseteq> fst ` set P"
  shows "sign L (PDict P) (PDict M) =
           Inr (PStr (md5_hexdigest L (canonical_string
             ((map_of P |` signed_keys (dict_get M (ascii ''SignatureIndex'') PNone) P)
                ++ map_of M))))"
  using assms(3) assms(4) by (simp add: sign_char [OF assms(1) assms(2)])

theorem sign_canonical_string_witness:
  "sign (toy_lib []) (PDict [(ascii ''b'', PInt 2), (ascii ''a'', PStr (ascii ''x y''))])
        (PDict [(ascii ''Timestamp'', PStr (ascii ''t'')), (ascii ''a'', PNone)])
   = Inr (PStr (md5_hexdigest (toy_lib [])
           (ascii ''%22Timestamp%22=%22t%22&%22a%22=null&%22b%22=2&'')))"
proof -
  let ?P = "[(ascii ''b'', PInt 2), (ascii ''a'', PStr (ascii ''x y''))]"
  let ?M = "[(ascii ''Timestamp'', PStr (ascii ''t'')), (ascii ''a'', PNone)]"
  let ?X = "[(ascii ''b'', PInt 2), (ascii ''a'', PNone), (ascii ''Timestamp'', PStr (ascii ''t''))]"
  have g: "dict_get ?M (ascii ''SignatureIndex'') PNone = PNone"
    by (simp add: dict_get_def ascii_def)
  have h1: "distinct (map fst ?P)" and h2: "distinct (map fst ?M)"
    by (simp_all add: ascii_def)
  have h3: "dict_get ?M (ascii ''SignatureIndex'') PNone \<noteq> PBool False"
    unfolding g by simp
  have h4: "signed_keys (dict_get ?M (ascii ''SignatureIndex'') PNone) ?P \<subseteq> fst ` set ?P"
    unfolding g by (simp add: signed_keys_def)
  have m: "(map_of ?P |` signed_keys (dict_get ?M (ascii ''SignatureIndex'') PNone) ?P)
             ++ map_of ?M = map_of ?X"
    unfolding g
    by (rule ext) (simp add: signed_keys_def restrict_map_def map_add_def ascii_def)
  have dX: "distinct (map fst ?X)" by (simp add: ascii_def)
  have c: "canonical_string (map_of ?X)
           = ascii ''%22Timestamp%22=%22t%22&%22a%22=null&%22b%22=2&''"
    unfolding canonical_of_sorted [OF dX, symmetric]
    by (simp add: canonical_item_def item_encoding_def json_dumps_sorted_def json_string_def
          json_escape_char_def quote_def quote_byte_def always_safe_def hex_upper_def
          show_int_def show_nat.simps ascii_def)
  show ?thesis
    using sign_canonical_string [OF h1 h2 h3 h4, of "toy_lib []"] by (simp only: m c)
qed



text \<open>
  C8. The signature depends on the set of pairs of the payload and of the metadata only:
  two dicts with the same pairs in another order give the same result.
\<close>

theorem sign_order_independent:
  assumes "distinct (map fst P)" and "distinct (map fst P')" and "set P = set P'"
    and "distinct (map fst M)" and "distinct (map fst M')" and "set M = set M'"
  shows "sign L (PDict P) (PDict M) = sign L (PDict P') (PDict M')"
proof -
  have p: "map_of P = map_of P'"
    using map_of_inject_set [OF assms(1) assms(2)] assms(3) by simp
  have m: "map_of M = map_of M'"
    using map_of_inject_set [OF assms(4) assms(5)] assms(6) by simp
  have g: "dict_get M (ascii ''SignatureIndex'') PNone = dict_get M' (ascii ''SignatureIndex'') PNone"
    by (simp add: dict_get_def m)
  have k: "signed_keys idx P = signed_keys idx P'" for idx
    by (simp add: signed_keys_def assms(3))
  show ?thesis
    by (simp only: sign_char [OF assms(1) assms(4)] sign_char [OF assms(2) assms(5)]
          p m g k assms(3))
qed

theorem sign_order_independent_witness:
  "distinct (map fst [(ascii ''a'', PInt 1), (ascii ''b'', PStr (ascii ''x''))])
   \<and> set [(ascii ''a'', PInt 1), (ascii ''b'', PStr (ascii ''x''))]
       = set [(ascii ''b'', PStr (ascii ''x'')), (ascii ''a'', PInt 1)]
   \<and> sign (toy_lib []) (PDict [(ascii ''a'', PInt 1), (ascii ''b'', PStr (ascii ''x''))])
          (PDict [(ascii ''Timestamp'', PStr (ascii ''t'')), (ascii ''SignatureIndex'', PNone)])
     = sign (toy_lib []) (PDict [(ascii ''b'', PStr (ascii ''x'')), (ascii ''a'', PInt 1)])
          (PDict [(ascii ''SignatureIndex'', PNone), (ascii ''Timestamp'', PStr (ascii ''t''))])"
proof -
  have "sign (toy_lib []) (PDict [(ascii ''a'', PInt 1), (ascii ''b'', PStr (ascii ''x''))])
          (PDict [(ascii ''Timestamp'', PStr (ascii ''t'')), (ascii ''SignatureIndex'', PNone)])
     = sign (toy_lib []) (PDict [(ascii ''b'', PStr (ascii ''x'')), (ascii ''a'', PInt 1)])
          (PDict [(ascii ''SignatureIndex'', PNone), (ascii ''Timestamp'', PStr (ascii ''t''))])"
    by (rule sign_order_independent) (auto simp: ascii_def)
  then show ?thesis by (auto simp: ascii_def)
qed

section \<open>The four-step exchange\<close>

text \<open>
  C1, as stated, fails for a payload that uses the key \<^verbatim>\<open>__meta__\<close>: the metadata
  replaces that member before encryption and \<^verbatim>\<open>serverDecrypt\<close> pops it, so whatever
  \<^verbatim>\<open>serverDecrypt\<close> returns has no such key. This holds for every library, not only
  for the one of the example.
\<close>

theorem round_trip_reserved_key_counterexample:
  "\<not> isl (clientEncrypt (toy_lib []) (client_init (toy_lib []) [] []) demo_ts []
            (PDict [(ascii ''__meta__'', PInt 1)]) PNone)
   \<and> snd (serverDecrypt (toy_lib []) (server_init [])
           (projr (clientEncrypt (toy_lib []) (client_init (toy_lib []) [] []) demo_ts []
                    (PDict [(ascii ''__meta__'', PInt 1)]) PNone)))
     \<noteq> Inr (PDict [(ascii ''__meta__'', PInt 1)])"
proof
  show "\<not> isl (clientEncrypt (toy_lib []) (client_init (toy_lib []) [] []) demo_ts []
            (PDict [(ascii ''__meta__'', PInt 1)]) PNone)"
    by (rule clientEncrypt_ok [OF toy_b64_ok toy_md5_ok toy_valid_keypair]) simp_all
next
  show "snd (serverDecrypt (toy_lib []) (server_init [])
           (projr (clientEncrypt (toy_lib []) (client_init (toy_lib []) [] []) demo_ts []
                    (PDict [(ascii ''__meta__'', PInt 1)]) PNone)))
     \<noteq> Inr (PDict [(ascii ''__meta__'', PInt 1)])"
  proof
    assume "snd (serverDecrypt (toy_lib []) (server_init [])
           (projr (clientEncrypt (toy_lib []) (client_init (toy_lib []) [] []) demo_ts []
                    (PDict [(ascii ''__meta__'', PInt 1)]) PNone)))
     = Inr (PDict [(ascii ''__meta__'', PInt 1)])"
    from serverDecrypt_no_meta [OF this] show False by simp
  qed
qed

text \<open>
  C1, amended. With a valid key pair, libraries that invert their own encodings, and
  \<^verbatim>\<open>json.loads\<close> reading back the two documents that are sent: for every non-empty
  payload \<^verbatim>\<open>P\<close> and response \<^verbatim>\<open>R\<close> that do not use the reserved key
  \<^verbatim>\<open>__meta__\<close>, \<^verbatim>\<open>clientEncrypt\<close>, \<^verbatim>\<open>serverDecrypt\<close>, \<^verbatim>\<open>serverEncrypt\<close> and
  \<^verbatim>\<open>clientDecrypt\<close> all succeed, the server gets \<^verbatim>\<open>P\<close> and the client gets \<^verbatim>\<open>R\<close>,
  both without the metadata.
\<close>

theorem round_trip:
  assumes "b64_ok L" and "aes_ok L" and "md5_ok L" and "valid_keypair L pub priv"
    and "P \<noteq> []" and "distinct (map fst P)" and "ascii ''__meta__'' \<notin> fst ` set P"
    and "R \<noteq> []" and "distinct (map fst R)" and "ascii ''__meta__'' \<notin> fst ` set R"
    and "\<forall>d. with_meta L ts P PNone = Inr d \<longrightarrow> loads_inverts L d"
    and "\<forall>d. with_meta L ts' R PNone = Inr d \<longrightarrow> loads_inverts L d"
  shows "\<exists>req s' resp.
      clientEncrypt L (client_init L rnd0 pub) ts rnd (PDict P) PNone = Inr req
    \<and> serverDecrypt L (server_init priv) req = (s', Inr (PDict P))
    \<and> serverEncrypt L s' ts' (PDict R) PNone = Inr resp
    \<and> clientDecrypt L (client_init L rnd0 pub) resp = Inr (PDict R)"
proof -
  from exchange_request [OF assms(1-7) assms(11), of rnd0 rnd] obtain rk ct where
    1: "clientEncrypt L (client_init L rnd0 pub) ts rnd (PDict P) PNone
        = Inr (PDict [(ascii ''key'', PStr rk), (ascii ''value'', PStr ct)])"
    and 2: "serverDecrypt L (server_init priv) (PDict [(ascii ''key'', PStr rk), (ascii ''value'', PStr ct)])
        = (\<lparr>s_PrivateKey = priv, s_AESKey = PStr (genAesKey L rnd0)\<rparr>, Inr (PDict P))"
    by blast
  from exchange_response [OF assms(1-3) assms(8-10) assms(12), of priv rnd0 pub] obtain ct' where
    3: "serverEncrypt L \<lparr>s_PrivateKey = priv, s_AESKey = PStr (genAesKey L rnd0)\<rparr> ts' (PDict R) PNone
        = Inr (PDict [(ascii ''data'', PStr ct')])"
    and 4: "clientDecrypt L (client_init L rnd0 pub) (PDict [(ascii ''data'', PStr ct')]) = Inr (PDict R)"
    by blast
  from 1 2 3 4 show ?thesis by blast
qed

theorem round_trip_witness:
  "b64_ok demo_lib \<and> aes_ok demo_lib \<and> md5_ok demo_lib \<and> valid_keypair demo_lib [] []
   \<and> demo_P \<noteq> [] \<and> distinct (map fst demo_P) \<and> ascii ''__meta__'' \<notin> fst ` set demo_P
   \<and> demo_R \<noteq> [] \<and> distinct (map fst demo_R) \<and> ascii ''__meta__'' \<notin> fst ` set demo_R
   \<and> (\<exists>req s' resp.
        clientEncrypt demo_lib demo_client demo_ts [] (PDict demo_P) PNone = Inr req
      \<and> serverDecrypt demo_lib (server_init []) req = (s', Inr (PDict demo_P))
      \<and> serverEncrypt demo_lib s' demo_ts (PDict demo_R) PNone = Inr resp
      \<and> clientDecrypt demo_lib demo_client resp = Inr (PDict demo_R))"
  using round_trip [OF demo_lib_ok(1-3) demo_lib_ok(4) [of "[]" "[]"] demo_payloads
          demo_with_meta(1) demo_with_meta(2), where ?rnd0.0 = "[]" and rnd = "[]"]
    demo_lib_ok(1-3) demo_lib_ok(4) [of "[]" "[]"] demo_payloads
  unfolding demo_client_def by blast

section \<open>Verification of the signature\<close>

text \<open>
  C5. For an envelope that decrypts to a document with a \<^verbatim>\<open>__meta__\<close> dict holding a
  \<^verbatim>\<open>Signature\<close>, and whose remaining content can be signed: \<^verbatim>\<open>clientDecrypt\<close> and
  \<^verbatim>\<open>serverDecrypt\<close> return the payload when the transmitted signature equals the
  recomputed one and raise \<^verbatim>\<open>SignError\<close> otherwise. The recomputed signature does not
  depend on the transmitted one, so changing the transmitted value of a valid envelope
  always ends in \<^verbatim>\<open>SignError\<close>.
\<close>

theorem signature_verification:
  assumes "map_of cenv (ascii ''data'') = Some ct"
    and "map_of senv (ascii ''key'') = Some rk" and "map_of senv (ascii ''value'') = Some ct"
    and "RSADecrypt L (s_PrivateKey s) rk = Inr (c_AESKey c)"
    and "AESDecrypt L (PStr (c_AESKey c)) ct = Inr plain"
    and "loads L plain = Inr (PDict doc)"
    and "map_of doc (ascii ''__meta__'') = Some (PDict m)"
    and "map_of m (ascii ''Signature'') = Some sg"
    and "sign L (PDict (AList.delete (ascii ''__meta__'') doc))
           (PDict (AList.delete (ascii ''Signature'') m)) = Inr sd"
  shows "clientDecrypt L c (PDict cenv) =
           (if sg = sd then Inr (PDict (AList.delete (ascii ''__meta__'') doc)) else Inl SignError)
       \<and> snd (serverDecrypt L s (PDict senv)) =
           (if sg = sd then Inr (PDict (AList.delete (ascii ''__meta__'') doc)) else Inl SignError)
       \<and> (\<forall>sg'. sign L
             (PDict (AList.delete (ascii ''__meta__'')
                (AList.update (ascii ''__meta__'')
                   (PDict (AList.update (ascii ''Signature'') sg' m)) doc)))
             (PDict (AList.delete (ascii ''Signature'') (AList.update (ascii ''Signature'') sg' m)))
            = Inr sd)"
proof -
  have v: "verify L plain =
           (if sg = sd then Inr (PDict (AList.delete (ascii ''__meta__'') doc)) else Inl SignError)"
    using assms(6-9) by (simp add: verify_def dict_pop_def del: loads.simps)
  have c: "cenv \<noteq> []" and se: "senv \<noteq> []" using assms(1,2) by auto
  have 1: "clientDecrypt L c (PDict cenv) =
           (if sg = sd then Inr (PDict (AList.delete (ascii ''__meta__'') doc)) else Inl SignError)"
    using c assms(1,5) by (simp add: clientDecrypt_def dict_get_def v)
  have 2: "snd (serverDecrypt L s (PDict senv)) =
           (if sg = sd then Inr (PDict (AList.delete (ascii ''__meta__'') doc)) else Inl SignError)"
    using se assms(2-5) by (simp add: serverDecrypt_def dict_get_def v)
  show ?thesis
    using 1 2 assms(9) by (simp add: delete_update_same)
qed

theorem signature_verification_witness:
  "clientDecrypt demo_lib demo_client (PDict [(ascii ''data'', demo_forged_ct)]) = Inl SignError
   \<and> snd (serverDecrypt demo_lib (server_init [])
           (PDict [(ascii ''key'', demo_rk), (ascii ''value'', demo_forged_ct)])) = Inl SignError"
proof -
  let ?key = "genAesKey demo_lib []"
  let ?m = "[(ascii ''SignatureIndex'', PNone), (ascii ''Signature'', PStr (ascii ''00''))]"
  let ?doc = "[(ascii ''x'', PInt 1), (ascii ''__meta__'', PDict ?m)]"
  have f: "demo_forged = PDict ?doc" by (simp add: demo_forged_def)
  from AES_round_trip [OF demo_lib_ok(1) demo_lib_ok(2) demo_key(2) demo_key(3) demo_key(4)
         demo_key(5) json_dumps_compact_dict_nonempty printable_json_dumps_compact,
         of ?doc]
  obtain ct where
    ct: "AESEncrypt demo_lib (PStr ?key) (PStr (json_dumps_compact demo_forged)) = Inr (PStr ct)"
        "AESDecrypt demo_lib (PStr ?key) (PStr ct) = Inr (PStr (json_dumps_compact demo_forged))"
    unfolding f by blast
  have fct: "demo_forged_ct = PStr ct"
    by (simp add: demo_forged_ct_def demo_key(1) ct(1))
  from RSA_round_trip [OF demo_lib_ok(4) demo_lib_ok(1) demo_key(4) demo_key(6) demo_key(7),
         of "[]" "[]" "[]"]
  obtain rk where
    rk: "RSAEncrypt demo_lib [] ?key [] = Inr rk" "RSADecrypt demo_lib [] (PStr rk) = Inr ?key"
    by blast
  have frk: "demo_rk = PStr rk" by (simp add: demo_rk_def demo_key(1) rk(1))
  have h1: "map_of [(ascii ''data'', demo_forged_ct)] (ascii ''data'') = Some (PStr ct)"
    by (simp add: fct)
  have h2: "map_of [(ascii ''key'', demo_rk), (ascii ''value'', demo_forged_ct)] (ascii ''key'')
            = Some (PStr rk)"
    by (simp add: frk)
  have h3: "map_of [(ascii ''key'', demo_rk), (ascii ''value'', demo_forged_ct)] (ascii ''value'')
            = Some (PStr ct)"
    by (simp add: fct ascii_def)
  have h4: "RSADecrypt demo_lib (s_PrivateKey (server_init [])) (PStr rk) = Inr (c_AESKey demo_client)"
    by (simp add: server_init_def rk(2) demo_key(1))
  have h5: "AESDecrypt demo_lib (PStr (c_AESKey demo_client)) (PStr ct)
            = Inr (PStr (json_dumps_compact demo_forged))"
    by (simp add: demo_key(1) ct(2))
  have h6: "loads demo_lib (PStr (json_dumps_compact demo_forged)) = Inr (PDict ?doc)"
    using demo_loads(3) by (simp add: loads_inverts_def f)
  have h7: "map_of ?doc (ascii ''__meta__'') = Some (PDict ?m)"
    by (simp add: ascii_def)
  have h8: "map_of ?m (ascii ''Signature'') = Some (PStr (ascii ''00''))"
    by (simp add: ascii_def)
  have d1: "AList.delete (ascii ''__meta__'') ?doc = [(ascii ''x'', PInt 1)]"
    by (simp add: AList.delete_eq ascii_def)
  have d2: "AList.delete (ascii ''Signature'') ?m = [(ascii ''SignatureIndex'', PNone)]"
    by (simp add: AList.delete_eq ascii_def)
  have g: "dict_get [(ascii ''SignatureIndex'', PNone)] (ascii ''SignatureIndex'') PNone = PNone"
    by (simp add: dict_get_def)
  have "\<exists>h. sign demo_lib (PDict [(ascii ''x'', PInt 1)]) (PDict [(ascii ''SignatureIndex'', PNone)])
             = Inr (PStr (md5_hexdigest demo_lib h))"
    using sign_char [of "[(ascii ''x'', PInt 1)]" "[(ascii ''SignatureIndex'', PNone)]" demo_lib]
    by (auto simp: g signed_keys_def)
  then obtain h where
    h9: "sign demo_lib (PDict (AList.delete (ascii ''__meta__'') ?doc))
           (PDict (AList.delete (ascii ''Signature'') ?m)) = Inr (PStr (md5_hexdigest demo_lib h))"
    unfolding d1 d2 by blast
  have "length (md5_hexdigest demo_lib h) = 32"
    using demo_lib_ok(3) by (simp add: md5_ok_def)
  moreover have "length (ascii ''00'') = 2" by (simp add: ascii_def)
  ultimately have ne: "PStr (ascii ''00'') \<noteq> PStr (md5_hexdigest demo_lib h)"
    by auto
  from signature_verification [OF h1 h2 h3 h4 h5 h6 h7 h8 h9] ne
  show ?thesis by (simp add: fct frk)
qed

section \<open>The key slot in the example run\<close>

theorem server_encrypt_needs_key_witness:
  "serverEncrypt demo_lib (server_init []) demo_ts (PDict demo_R) PNone = Inl ValueError
   \<and> serverDecrypt demo_lib (server_init []) demo_request
       = (\<lparr>s_PrivateKey = [], s_AESKey = PStr (genAesKey demo_lib [])\<rparr>, Inr (PDict demo_P))
   \<and> \<not> isl (serverEncrypt demo_lib \<lparr>s_PrivateKey = [], s_AESKey = PStr (genAesKey demo_lib [])\<rparr>
              demo_ts (PDict demo_R) PNone)"
proof -
  let ?s' = "\<lparr>s_PrivateKey = [], s_AESKey = PStr (genAesKey demo_lib [])\<rparr>"
  from exchange_request [OF demo_lib_ok(1-3) demo_lib_ok(4) [of "[]" "[]"] demo_payloads(1-3)
         demo_with_meta(1), where ?rnd0.0 = "[]" and rnd = "[]"]
  obtain rk ct where
    e: "clientEncrypt demo_lib (client_init demo_lib [] []) demo_ts [] (PDict demo_P) PNone
        = Inr (PDict [(ascii ''key'', PStr rk), (ascii ''value'', PStr ct)])"
    and d: "serverDecrypt demo_lib (server_init [])
              (PDict [(ascii ''key'', PStr rk), (ascii ''value'', PStr ct)])
        = (?s', Inr (PDict demo_P))"
    by blast
  have r: "demo_request = PDict [(ascii ''key'', PStr rk), (ascii ''value'', PStr ct)]"
    by (simp add: demo_request_def demo_client_def e)
  have d': "serverDecrypt demo_lib (server_init []) demo_request = (?s', Inr (PDict demo_P))"
    unfolding r by (rule d)
  note t = server_encrypt_needs_key [of demo_lib "[]" demo_ts "PDict demo_R" PNone
             "server_init []" demo_request ?s' "PDict demo_P"]
  from t have 1: "serverEncrypt demo_lib (server_init []) demo_ts (PDict demo_R) PNone
                  = Inl ValueError" by blast
  from t d' obtain k kb where
    k: "\<forall>ts resp signIndex respData.
          truthy resp \<and> is_dict resp \<and> with_meta demo_lib ts (dict_of resp) signIndex = Inr respData
          \<longrightarrow> serverEncrypt demo_lib ?s' ts resp signIndex =
                Inr (PDict [(ascii ''data'',
                  PStr (b64encode demo_lib (aes_cbc_encrypt demo_lib kb (take 16 kb)
                         (PADDING (json_dumps_compact respData)))))])"
    by blast
  have "truthy (PDict demo_R) \<and> is_dict (PDict demo_R)
        \<and> with_meta demo_lib demo_ts (dict_of (PDict demo_R)) PNone
           = Inr (projr (with_meta (toy_lib []) demo_ts demo_R PNone))"
    using demo_payloads(4) demo_with_meta(3) by simp
  with k have "serverEncrypt demo_lib ?s' demo_ts (PDict demo_R) PNone =
                Inr (PDict [(ascii ''data'',
                  PStr (b64encode demo_lib (aes_cbc_encrypt demo_lib kb (take 16 kb)
                         (PADDING (json_dumps_compact
                            (projr (with_meta (toy_lib []) demo_ts demo_R PNone)))))))])"
    by blast
  then have 3: "\<not> isl (serverEncrypt demo_lib ?s' demo_ts (PDict demo_R) PNone)" by simp
  from 1 d' 3 show ?thesis by blast
qed

end
